theory Spec2Isabelle
  imports Complex_Main "HOL-Library.Sublist"
begin

section \<open>The expense screen of expo-sqlite-tasks (src/ExpenseScreen.js)\<close>

text \<open>
  The source file holds two revisions of \<^verbatim>\<open>ExpenseScreen.js\<close>, one after the other. The
  second (lines 320 to 863) extends the first (lines 1 to 319) by the category filter, the
  per-category totals, the pie chart with its legend and the edit mode; \<^verbatim>\<open>addExpense\<close>
  (up to the edit branch), \<^verbatim>\<open>filteredExpenses\<close> and the fold of \<^verbatim>\<open>visibleTotal\<close> are the same
  text in both. The model follows the second revision.

  What the platform supplies and the standard leaves open is kept apart from the
  translated code: the implementation-defined fallback of the \<^verbatim>\<open>Date\<close> parser and the
  local time zone are fields of an environment record. What ECMA-262 fixes is written out
  after the standard: the arithmetic of Numbers, \<^verbatim>\<open>parseFloat\<close>, \<^verbatim>\<open>toFixed\<close>, the order of
  the keys of an object, and of the \<^verbatim>\<open>Date\<close> API the time values, the date-only ISO format,
  \<^verbatim>\<open>toISOString\<close>, \<^verbatim>\<open>setDate\<close> and the constructor from year, month and day.

  A string is a list of characters below U+0100.
\<close>

subsection \<open>Numbers\<close>

text \<open>
  A JavaScript Number is an IEEE-754 double: NaN, one of the two infinities, or a finite
  value, which is a rational number (\<open>Num\<close>). The arithmetic rounds every result to the
  nearest double, to the one with an even significand when two are equally near, and to an
  infinity from \<open>2\<^sup>1\<^sup>0\<^sup>2\<^sup>4 - 2\<^sup>9\<^sup>7\<^sup>0\<close> on. The two zeros are one value here, \<open>Num 0\<close>: a zero of
  either sign is falsy, is \<^verbatim>\<open><= 0\<close>, adds like 0 and prints without a sign, and the
  divisions of the screen are guarded by a truthy divisor, so that no expression of the
  screen tells the two apart (\<open>fdiv\<close> takes a zero divisor as positive).
\<close>

datatype jsnum = NaN | Num rat | PosInf | NegInf

text \<open>\<open>2\<^sup>k\<close> for an integer \<open>k\<close>.\<close>

definition pow2 :: "int \<Rightarrow> rat" where
  "pow2 k = (if 0 \<le> k then 2 ^ nat k else 1 / 2 ^ nat (- k))"

text \<open>The binary exponent of a positive rational: \<open>2\<^sup>e \<le> x < 2\<^sup>e\<^sup>+\<^sup>1\<close> for \<open>e = ilog2 x\<close>.\<close>

function ilog2 :: "rat \<Rightarrow> int" where
  "ilog2 x = (if x \<le> 0 then 0
              else if 2 \<le> x then ilog2 (x / 2) + 1
              else if x < 1 then ilog2 (2 * x) - 1
              else 0)"
  by pat_completeness auto
termination
proof (relation "measure (\<lambda>x. if 1 \<le> x then nat \<lfloor>x\<rfloor> else nat \<lceil>1 / x\<rceil>)")
  show "wf (measure (\<lambda>x :: rat. if 1 \<le> x then nat \<lfloor>x\<rfloor> else nat \<lceil>1 / x\<rceil>))" by simp
next
  fix x :: rat
  assume "\<not> x \<le> 0" "2 \<le> x"
  then have "\<lfloor>x / 2\<rfloor> \<le> \<lfloor>x - 1\<rfloor>" by (intro floor_mono) simp
  then have "\<lfloor>x / 2\<rfloor> < \<lfloor>x\<rfloor>" by simp
  moreover have "1 \<le> \<lfloor>x / 2\<rfloor>" using \<open>2 \<le> x\<close> by simp
  ultimately show "(x / 2, x) \<in> measure (\<lambda>x. if 1 \<le> x then nat \<lfloor>x\<rfloor> else nat \<lceil>1 / x\<rceil>)"
    using \<open>2 \<le> x\<close> by simp
next
  fix x :: rat
  assume a: "\<not> x \<le> 0" "\<not> 2 \<le> x" "x < 1"
  show "(2 * x, x) \<in> measure (\<lambda>x. if 1 \<le> x then nat \<lfloor>x\<rfloor> else nat \<lceil>1 / x\<rceil>)"
  proof (cases "1 \<le> 2 * x")
    case True
    have "1 < 1 / x" using a by simp
    then have "1 < \<lceil>1 / x\<rceil>" by (simp add: less_ceiling_iff)
    moreover have "\<lfloor>2 * x\<rfloor> = 1" using True a by (intro floor_unique) simp_all
    ultimately show ?thesis using True a by simp
  next
    case False
    then have x: "0 < x" "2 * x < 1" using a by simp_all
    then have "2 \<le> 1 / x" by (simp add: pos_le_divide_eq)
    then have "1 / (2 * x) \<le> 1 / x - 1" using x by (simp add: field_simps)
    then have "\<lceil>1 / (2 * x)\<rceil> \<le> \<lceil>1 / x - 1\<rceil>" by (rule ceiling_mono)
    then have "\<lceil>1 / (2 * x)\<rceil> < \<lceil>1 / x\<rceil>" by simp
    moreover have "0 < \<lceil>1 / (2 * x)\<rceil>" using x by simp
    ultimately show ?thesis using False a by simp
  qed
qed

declare ilog2.simps [simp del]

text \<open>The nearest integer, the even one of two that are equally near.\<close>

definition roundTiesToEven :: "rat \<Rightarrow> int" where
  "roundTiesToEven z =
     (let f = \<lfloor>z\<rfloor>; d = z - of_int f
      in if d < 1 / 2 then f else if 1 / 2 < d then f + 1 else if even f then f else f + 1)"

text \<open>
  The double nearest to a rational \<open>x\<close>. The doubles around \<open>\<bar>x\<bar>\<close> are the multiples of
  \<open>u = 2\<^sup>q\<^sup>-\<^sup>5\<^sup>2\<close>, where \<open>q\<close> is the binary exponent of \<open>\<bar>x\<bar>\<close> and at least \<open>-1022\<close> (below
  \<open>2\<^sup>-\<^sup>1\<^sup>0\<^sup>2\<^sup>2\<close> the doubles are the multiples of \<open>2\<^sup>-\<^sup>1\<^sup>0\<^sup>7\<^sup>4\<close>).
\<close>

definition fl :: "rat \<Rightarrow> jsnum" where
  "fl x =
     (if x = 0 then Num 0
      else
        let a = \<bar>x\<bar>;
            u = pow2 (max (ilog2 a) (- 1022) - 52);
            y = of_int (roundTiesToEven (a / u)) * u
        in if pow2 1024 \<le> y then (if x < 0 then NegInf else PosInf)
           else Num (if x < 0 then - y else y))"

text \<open>\<^verbatim>\<open>-x\<close>, \<^verbatim>\<open>x + y\<close>, \<^verbatim>\<open>x * y\<close> and \<^verbatim>\<open>x / y\<close> on Numbers.\<close>

fun negate :: "jsnum \<Rightarrow> jsnum" where
  "negate NaN = NaN"
| "negate (Num r) = Num (- r)"
| "negate PosInf = NegInf"
| "negate NegInf = PosInf"

fun fadd :: "jsnum \<Rightarrow> jsnum \<Rightarrow> jsnum" where
  "fadd (Num a) (Num b) = fl (a + b)"
| "fadd NaN y = NaN"
| "fadd x NaN = NaN"
| "fadd PosInf NegInf = NaN"
| "fadd NegInf PosInf = NaN"
| "fadd PosInf y = PosInf"
| "fadd NegInf y = NegInf"
| "fadd (Num a) y = y"

fun fmul :: "jsnum \<Rightarrow> jsnum \<Rightarrow> jsnum" where
  "fmul (Num a) (Num b) = fl (a * b)"
| "fmul NaN y = NaN"
| "fmul x NaN = NaN"
| "fmul (Num a) y = (if a = 0 then NaN else if 0 < a then y else negate y)"
| "fmul x (Num b) = (if b = 0 then NaN else if 0 < b then x else negate x)"
| "fmul PosInf y = y"
| "fmul NegInf y = negate y"

fun fdiv :: "jsnum \<Rightarrow> jsnum \<Rightarrow> jsnum" where
  "fdiv (Num a) (Num b) =
     (if b = 0 then (if a = 0 then NaN else if 0 < a then PosInf else NegInf) else fl (a / b))"
| "fdiv NaN y = NaN"
| "fdiv x NaN = NaN"
| "fdiv (Num a) y = Num 0"
| "fdiv x (Num b) = (if 0 \<le> b then x else negate x)"
| "fdiv x y = NaN"

fun isNaN :: "jsnum \<Rightarrow> bool" where
  "isNaN NaN = True"
| "isNaN x = False"

text \<open>\<^verbatim>\<open>x <= 0\<close>: false when \<open>x\<close> is NaN.\<close>

fun le_zero :: "jsnum \<Rightarrow> bool" where
  "le_zero (Num r) = (r \<le> 0)"
| "le_zero NegInf = True"
| "le_zero x = False"

text \<open>A Number as a condition: 0 and NaN are falsy.\<close>

fun truthy :: "jsnum \<Rightarrow> bool" where
  "truthy (Num r) = (r \<noteq> 0)"
| "truthy NaN = False"
| "truthy x = True"

text \<open>\<^verbatim>\<open>isNaN(n) ? 0 : n\<close>, the coercion both folds apply to an amount.\<close>

fun orZero :: "jsnum \<Rightarrow> jsnum" where
  "orZero NaN = Num 0"
| "orZero x = x"

subsection \<open>Strings\<close>

definition is_digit :: "char \<Rightarrow> bool" where
  "is_digit c = (c \<in> set ''0123456789'')"

text \<open>The value of a digit, from its ASCII code.\<close>

definition digit_val :: "char \<Rightarrow> int" where
  "digit_val c = of_char c - 48"

definition digit_char :: "nat \<Rightarrow> char" where
  "digit_char k = ''0123456789'' ! (k mod 10)"

text \<open>The decimal value of a string of digits, most significant digit first.\<close>

definition digits_val :: "string \<Rightarrow> int" where
  "digits_val s = foldl (\<lambda>acc c. 10 * acc + digit_val c) 0 s"

text \<open>The lowest \<open>w\<close> decimal digits of \<open>k\<close>: \<open>k\<close> padded with zeros to width \<open>w\<close> when \<open>k < 10 ^ w\<close>.\<close>

primrec zero_pad :: "nat \<Rightarrow> nat \<Rightarrow> string" where
  "zero_pad 0 k = []"
| "zero_pad (Suc w) k = zero_pad w (k div 10) @ [digit_char k]"

text \<open>
  White space as \<^verbatim>\<open>String.prototype.trim\<close> and \<^verbatim>\<open>parseFloat\<close> strip it, below U+0100: tab,
  line feed, vertical tab, form feed, carriage return, space and no-break space.
\<close>

definition is_space :: "char \<Rightarrow> bool" where
  "is_space c = (c \<in> set [CHR 0x09, CHR 0x0A, CHR 0x0B, CHR 0x0C, CHR 0x0D, CHR 0x20, CHR 0xA0])"

definition trim :: "string \<Rightarrow> string" where
  "trim s = rev (dropWhile is_space (rev (dropWhile is_space s)))"

text \<open>\<^verbatim>\<open>/^\d{4}-\d{2}-\d{2}$/.test(s)\<close>\<close>

fun isoPattern :: "string \<Rightarrow> bool" where
  "isoPattern [y1, y2, y3, y4, h1, m1, m2, h2, d1, d2] =
     (is_digit y1 \<and> is_digit y2 \<and> is_digit y3 \<and> is_digit y4 \<and> h1 = CHR ''-'' \<and>
      is_digit m1 \<and> is_digit m2 \<and> h2 = CHR ''-'' \<and> is_digit d1 \<and> is_digit d2)"
| "isoPattern s = False"

text \<open>
  \<^verbatim>\<open>parseFloat\<close> after ECMA-262: leading white space is skipped; then the longest prefix
  that is a decimal literal (a sign, digits with an optional fraction and exponent, or
  \<^verbatim>\<open>Infinity\<close>) is read and whatever follows it is ignored; the result is NaN when there is
  no such prefix, and otherwise the double nearest to the value of the literal. (For a
  literal of more than 20 significant digits the standard also allows the double nearest to
  the literal cut to 20 digits; that freedom is not modelled.)
\<close>

definition exponentPart :: "string \<Rightarrow> int" where
  "exponentPart s =
     (case s of
        [] \<Rightarrow> 0
      | c # r \<Rightarrow>
          if c = CHR ''e'' \<or> c = CHR ''E'' then
            (case r of
               [] \<Rightarrow> 0
             | g # r' \<Rightarrow>
                 if g = CHR ''-'' then - digits_val (takeWhile is_digit r')
                 else if g = CHR ''+'' then digits_val (takeWhile is_digit r')
                 else digits_val (takeWhile is_digit r))
          else 0)"

definition unsignedLiteral :: "string \<Rightarrow> jsnum" where
  "unsignedLiteral s =
     (if take 8 s = ''Infinity'' then PosInf
      else
        let ds = takeWhile is_digit s;
            r = dropWhile is_digit s;
            fs = (case r of [] \<Rightarrow> [] | c # r' \<Rightarrow> if c = CHR ''.'' then takeWhile is_digit r' else []);
            r2 = (case r of [] \<Rightarrow> [] | c # r' \<Rightarrow> if c = CHR ''.'' then dropWhile is_digit r' else r);
            m = of_int (digits_val ds) + of_int (digits_val fs) / 10 ^ length fs
        in if ds = [] \<and> fs = [] then NaN
           else fl (m * (if exponentPart r2 < 0 then 1 / 10 ^ nat (- exponentPart r2)
                         else 10 ^ nat (exponentPart r2))))"

definition parseFloat :: "string \<Rightarrow> jsnum" where
  "parseFloat s =
     (case dropWhile is_space s of
        [] \<Rightarrow> NaN
      | c # r \<Rightarrow>
          if c = CHR ''-'' then negate (unsignedLiteral r)
          else if c = CHR ''+'' then unsignedLiteral r
          else unsignedLiteral (c # r))"

subsection \<open>Time values and calendar arithmetic (ECMA-262, Date objects)\<close>

text \<open>
  A time value is a number of milliseconds since 1970-01-01T00:00:00Z; a Date object is a
  time value or NaN (\<open>None\<close>, an invalid date).
\<close>

definition msPerDay :: int where
  "msPerDay = 86400000"

definition Day :: "int \<Rightarrow> int" where
  "Day t = t div msPerDay"

definition TimeWithinDay :: "int \<Rightarrow> int" where
  "TimeWithinDay t = t mod msPerDay"

definition DaysInYear :: "int \<Rightarrow> int" where
  "DaysInYear y =
     (if y mod 4 \<noteq> 0 then 365 else if y mod 100 \<noteq> 0 then 366
      else if y mod 400 \<noteq> 0 then 365 else 366)"

definition DayFromYear :: "int \<Rightarrow> int" where
  "DayFromYear y =
     365 * (y - 1970) + (y - 1969) div 4 - (y - 1901) div 100 + (y - 1601) div 400"

text \<open>
  The standard defines \<^verbatim>\<open>YearFromTime(t)\<close> as the largest year whose first day is not
  after \<open>t\<close>. The executable form estimates the year from the mean length of a Gregorian
  year (146097 days in 400 years) and corrects the estimate by at most one;
  \<open>YearFromDay_lower\<close> and \<open>YearFromDay_upper\<close> below show that it is the year of the
  standard.
\<close>

definition YearFromDay :: "int \<Rightarrow> int" where
  "YearFromDay d =
     (let y = 1970 + (400 * d) div 146097 in
      if d < DayFromYear y then y - 1
      else if DayFromYear (y + 1) \<le> d then y + 1
      else y)"

definition YearFromTime :: "int \<Rightarrow> int" where
  "YearFromTime t = YearFromDay (Day t)"

definition InLeapYear :: "int \<Rightarrow> int" where
  "InLeapYear t = (if DaysInYear (YearFromTime t) = 366 then 1 else 0)"

definition DayWithinYear :: "int \<Rightarrow> int" where
  "DayWithinYear t = Day t - DayFromYear (YearFromTime t)"

definition MonthFromTime :: "int \<Rightarrow> int" where
  "MonthFromTime t =
     (let d = DayWithinYear t; l = InLeapYear t in
      if d < 31 then 0 else if d < 59 + l then 1 else if d < 90 + l then 2
      else if d < 120 + l then 3 else if d < 151 + l then 4 else if d < 181 + l then 5
      else if d < 212 + l then 6 else if d < 243 + l then 7 else if d < 273 + l then 8
      else if d < 304 + l then 9 else if d < 334 + l then 10 else 11)"

definition DateFromTime :: "int \<Rightarrow> int" where
  "DateFromTime t =
     (let d = DayWithinYear t; l = InLeapYear t; m = MonthFromTime t in
      if m = 0 then d + 1 else if m = 1 then d - 30 else if m = 2 then d - 58 - l
      else if m = 3 then d - 89 - l else if m = 4 then d - 119 - l
      else if m = 5 then d - 150 - l else if m = 6 then d - 180 - l
      else if m = 7 then d - 211 - l else if m = 8 then d - 242 - l
      else if m = 9 then d - 272 - l else if m = 10 then d - 303 - l
      else d - 333 - l)"

text \<open>The number of days of year \<open>y\<close> before the first of month \<open>m\<close> (0 is January).\<close>

definition daysBeforeMonth :: "int \<Rightarrow> int \<Rightarrow> int" where
  "daysBeforeMonth y m =
     (let l = (if DaysInYear y = 366 then 1 else 0) in
      if m = 0 then 0 else if m = 1 then 31 else if m = 2 then 59 + l
      else if m = 3 then 90 + l else if m = 4 then 120 + l else if m = 5 then 151 + l
      else if m = 6 then 181 + l else if m = 7 then 212 + l else if m = 8 then 243 + l
      else if m = 9 then 273 + l else if m = 10 then 304 + l else 334 + l)"

text \<open>
  \<^verbatim>\<open>MakeDay(year, month, date)\<close>: months outside 0..11 carry into the year, and the day of
  the month is added as a plain offset, so day 0 or a negative day reaches back into the
  months before.
\<close>

definition MakeDay :: "int \<Rightarrow> int \<Rightarrow> int \<Rightarrow> int" where
  "MakeDay y m dt =
     (let ym = y + m div 12; mn = m mod 12 in
      DayFromYear ym + daysBeforeMonth ym mn + dt - 1)"

definition MakeDate :: "int \<Rightarrow> int \<Rightarrow> int" where
  "MakeDate dy tm = dy * msPerDay + tm"

definition TimeClip :: "int \<Rightarrow> int option" where
  "TimeClip t = (if \<bar>t\<bar> > 8640000000000000 then None else Some t)"

text \<open>
  The parser the engine falls back to for a date string outside the ISO format, and the
  offset of local time from UTC in milliseconds (a fixed offset: no daylight saving change
  is modelled).
\<close>

record env =
  legacyDateParse :: "string \<Rightarrow> int option"
  LocalTZA :: int

definition LocalTime :: "env \<Rightarrow> int \<Rightarrow> int" where
  "LocalTime e t = t + LocalTZA e"

definition UTC :: "env \<Rightarrow> int \<Rightarrow> int" where
  "UTC e t = t - LocalTZA e"

definition getFullYear :: "env \<Rightarrow> int \<Rightarrow> int" where
  "getFullYear e t = YearFromTime (LocalTime e t)"

definition getMonth :: "env \<Rightarrow> int \<Rightarrow> int" where
  "getMonth e t = MonthFromTime (LocalTime e t)"

definition getDate :: "env \<Rightarrow> int \<Rightarrow> int" where
  "getDate e t = DateFromTime (LocalTime e t)"

text \<open>\<^verbatim>\<open>d.setDate(dt)\<close> on a valid date: the new time value of \<open>d\<close>.\<close>

definition setDate :: "env \<Rightarrow> int \<Rightarrow> int \<Rightarrow> int option" where
  "setDate e t dt =
     (let lt = LocalTime e t;
          newDate = MakeDate (MakeDay (YearFromTime lt) (MonthFromTime lt) dt) (TimeWithinDay lt)
      in TimeClip (UTC e newDate))"

text \<open>
  \<^verbatim>\<open>new Date(year, month, date)\<close>: local midnight of that day. A year from 0 to 99 stands
  for 1900 + year.
\<close>

definition newDateYMD :: "env \<Rightarrow> int \<Rightarrow> int \<Rightarrow> int \<Rightarrow> int option" where
  "newDateYMD e y m dt =
     (let yr = (if 0 \<le> y \<and> y \<le> 99 then 1900 + y else y)
      in TimeClip (UTC e (MakeDate (MakeDay yr m dt) 0)))"

text \<open>\<^verbatim>\<open>a >= b\<close> on two Date objects compares their time values; it is false when one is NaN.\<close>

fun date_ge :: "int option \<Rightarrow> int option \<Rightarrow> bool" where
  "date_ge (Some a) (Some b) = (b \<le> a)"
| "date_ge a b = False"

subsection \<open>Parsing and printing dates\<close>

text \<open>
  The date-only forms of the ISO format of ECMA-262: \<^verbatim>\<open>YYYY\<close>, \<^verbatim>\<open>YYYY-MM\<close> and
  \<^verbatim>\<open>YYYY-MM-DD\<close>, where the year is four digits, or a sign and six digits (and not
  \<^verbatim>\<open>-000000\<close>). They denote midnight UTC.
\<close>

definition isoYear :: "string \<Rightarrow> (int \<times> string) option" where
  "isoYear s =
     (case s of
        [] \<Rightarrow> None
      | c # r \<Rightarrow>
          if c = CHR ''+'' \<or> c = CHR ''-'' then
            (if 6 \<le> length r \<and> list_all is_digit (take 6 r)
                \<and> \<not> (c = CHR ''-'' \<and> digits_val (take 6 r) = 0)
             then Some ((if c = CHR ''-'' then - 1 else 1) * digits_val (take 6 r), drop 6 r)
             else None)
          else if 4 \<le> length s \<and> list_all is_digit (take 4 s)
          then Some (digits_val (take 4 s), drop 4 s)
          else None)"

fun isoField :: "string \<Rightarrow> (int \<times> string) option" where
  "isoField (h # a # b # r) =
     (if h = CHR ''-'' \<and> is_digit a \<and> is_digit b then Some (digits_val [a, b], r) else None)"
| "isoField s = None"

definition isoDateOnly :: "string \<Rightarrow> (int \<times> int \<times> int) option" where
  "isoDateOnly s =
     (case isoYear s of
        None \<Rightarrow> None
      | Some (y, r1) \<Rightarrow>
          if r1 = [] then Some (y, 1, 1)
          else (case isoField r1 of
             None \<Rightarrow> None
           | Some (m, r2) \<Rightarrow>
               if r2 = [] then Some (y, m, 1)
               else (case isoField r2 of
                  None \<Rightarrow> None
                | Some (d, r3) \<Rightarrow> if r3 = [] then Some (y, m, d) else None)))"

definition DaysInMonth :: "int \<Rightarrow> int \<Rightarrow> int" where
  "DaysInMonth y m =
     (if m = 2 then (if DaysInYear y = 366 then 29 else 28)
      else if m = 4 \<or> m = 6 \<or> m = 9 \<or> m = 11 then 30 else 31)"

text \<open>
  \<^verbatim>\<open>new Date(s)\<close> for a string: a date-only ISO string with a month and a day that exist
  is midnight UTC of that day. Every other string (other formats, and ISO strings with a
  month or day out of range, which engines treat differently) is left to the engine's
  fallback parser. The result is clipped to the range of time values.
\<close>

definition newDateString :: "env \<Rightarrow> string \<Rightarrow> int option" where
  "newDateString e s =
     (case isoDateOnly s of
        Some (y, m, d) \<Rightarrow>
          if 1 \<le> m \<and> m \<le> 12 \<and> 1 \<le> d \<and> d \<le> DaysInMonth y m
          then TimeClip (MakeDate (MakeDay y (m - 1) d) 0)
          else Option.bind (legacyDateParse e s) TimeClip
      | None \<Rightarrow> Option.bind (legacyDateParse e s) TimeClip)"

text \<open>
  \<^verbatim>\<open>toISOString()\<close> of a valid date: the year is four digits from 0 to 9999, and a sign
  and six digits otherwise.
\<close>

definition isoYearString :: "int \<Rightarrow> string" where
  "isoYearString y =
     (if 0 \<le> y \<and> y \<le> 9999 then zero_pad 4 (nat y)
      else (if y < 0 then ''-'' else ''+'') @ zero_pad 6 (nat \<bar>y\<bar>))"

definition toISOString :: "int \<Rightarrow> string" where
  "toISOString t =
     isoYearString (YearFromTime t) @ ''-'' @ zero_pad 2 (nat (MonthFromTime t + 1)) @ ''-''
       @ zero_pad 2 (nat (DateFromTime t)) @ ''T''
       @ zero_pad 2 (nat ((t div 3600000) mod 24)) @ '':''
       @ zero_pad 2 (nat ((t div 60000) mod 60)) @ '':''
       @ zero_pad 2 (nat ((t div 1000) mod 60)) @ ''.''
       @ zero_pad 3 (nat (t mod 1000)) @ ''Z''"

subsection \<open>The stored records and the state of the screen\<close>

text \<open>
  A row of the table \<^verbatim>\<open>expenses\<close> as \<^verbatim>\<open>getAllAsync\<close> returns it. The columns
  \<^verbatim>\<open>id\<close> and \<^verbatim>\<open>note\<close> are the fields \<open>id_col\<close> and \<open>note_col\<close>. SQLite hands a number, a
  text or NULL to JavaScript; the text columns are a string or null.
\<close>

datatype sqlval = SqlNum jsnum | SqlText string | SqlNull

record expense =
  id_col :: int
  amount :: sqlval
  category :: "string option"
  note_col :: "string option"
  date :: "string option"

datatype time_filter = FilterAll | FilterWeek | FilterMonth

text \<open>
  The state: the table and its AUTOINCREMENT counter, and the React state of the
  component. The form fields \<^verbatim>\<open>amount\<close>, \<^verbatim>\<open>category\<close>, \<^verbatim>\<open>note\<close>, \<^verbatim>\<open>date\<close> are
  \<open>amountText\<close>, \<open>categoryText\<close>, \<open>noteText\<close>, \<open>dateText\<close>; \<^verbatim>\<open>filter\<close> is \<open>timeFilter\<close>.
\<close>

record screen =
  table_rows :: "expense list"
  table_seq :: int
  expenses :: "expense list"
  amountText :: string
  categoryText :: string
  noteText :: string
  dateText :: string
  timeFilter :: time_filter
  categoryFilter :: string
  editingId :: "int option"

text \<open>
  \<^verbatim>\<open>parseFloat(it.amount)\<close>: a number is itself (its string reads back as the same
  number), a text is parsed, null is NaN.
\<close>

fun amountNumber :: "sqlval \<Rightarrow> jsnum" where
  "amountNumber (SqlNum n) = n"
| "amountNumber (SqlText s) = parseFloat s"
| "amountNumber SqlNull = NaN"

subsection \<open>Validation and storage: \<^verbatim>\<open>addExpense\<close>\<close>

datatype validation_error = InvalidAmount | MissingCategory

text \<open>Lines 394 to 409: the date as it is stored.\<close>

definition dateIso :: "env \<Rightarrow> string \<Rightarrow> string option" where
  "dateIso e dt =
     (if dt = [] then None
      else if isoPattern dt then Some dt
      else (case newDateString e dt of
              Some parsed \<Rightarrow> Some (take 10 (toISOString parsed))
            | None \<Rightarrow> None))"

text \<open>\<^verbatim>\<open>SELECT * FROM expenses ORDER BY id DESC\<close> into the state.\<close>

definition loadExpenses :: "screen \<Rightarrow> screen" where
  "loadExpenses st = st\<lparr>expenses := rev (sort_key id_col (table_rows st))\<rparr>"

text \<open>
  The two statements \<^verbatim>\<open>addExpense\<close> runs. An AUTOINCREMENT key is one more than the
  largest key the table has ever held.
\<close>

definition sqlInsert :: "sqlval \<Rightarrow> string \<Rightarrow> string option \<Rightarrow> string option \<Rightarrow> screen \<Rightarrow> screen" where
  "sqlInsert a c n d st =
     (let i = foldr max (map id_col (table_rows st)) (table_seq st) + 1
      in st\<lparr>table_rows := table_rows st
                @ [\<lparr>id_col = i, amount = a, category = Some c, note_col = n, date = d\<rparr>],
            table_seq := i\<rparr>)"

definition sqlUpdate :: "sqlval \<Rightarrow> string \<Rightarrow> string option \<Rightarrow> string option \<Rightarrow> int \<Rightarrow> screen \<Rightarrow> screen" where
  "sqlUpdate a c n d i st =
     st\<lparr>table_rows :=
          map (\<lambda>r. if id_col r = i
                    then r\<lparr>amount := a, category := Some c, note_col := n, date := d\<rparr>
                    else r)
              (table_rows st)\<rparr>"

text \<open>
  \<^verbatim>\<open>addExpense\<close> returns nothing; the model returns which of the two early returns was
  taken, if any, together with the state afterwards.
\<close>

definition addExpense :: "env \<Rightarrow> screen \<Rightarrow> validation_error option \<times> screen" where
  "addExpense e st =
     (let num = parseFloat (amountText st) in
      if isNaN num \<or> le_zero num then (Some InvalidAmount, st)
      else
        let trimmedCategory = trim (categoryText st);
            trimmedNote = trim (noteText st)
        in
        if trimmedCategory = [] then (Some MissingCategory, st)
        else
          let d = dateIso e (dateText st);
              n = (if trimmedNote = [] then None else Some trimmedNote);
              st1 = (case editingId st of
                       Some i \<Rightarrow> sqlUpdate (SqlNum num) trimmedCategory n d i st
                     | None \<Rightarrow> sqlInsert (SqlNum num) trimmedCategory n d st);
              st2 = st1\<lparr>amountText := [], categoryText := [], noteText := [], dateText := [],
                        editingId := None\<rparr>
          in (None, loadExpenses st2))"

subsection \<open>The filters\<close>

text \<open>
  The callback of \<^verbatim>\<open>filteredExpenses\<close> (lines 479 to 501), with the time \<^verbatim>\<open>new Date()\<close>
  reads as the parameter \<open>now\<close> (every read of the clock during one render is taken to
  give the same instant). The state \<^verbatim>\<open>filter\<close> only ever holds one of the three strings, so the
  last \<^verbatim>\<open>return true\<close> is not reached.
\<close>

definition inWindow :: "env \<Rightarrow> int \<Rightarrow> time_filter \<Rightarrow> expense \<Rightarrow> bool" where
  "inWindow e now flt item =
     (if flt = FilterAll then True
      else (case date item of
          None \<Rightarrow> False
        | Some s \<Rightarrow>
            if s = [] then False
            else (case newDateString e s of
                None \<Rightarrow> False
              | Some d \<Rightarrow>
                  if flt = FilterWeek then
                    (let sevenDaysAgo = setDate e now (getDate e now - 6);
                         dateOnly = newDateYMD e (getFullYear e d) (getMonth e d) (getDate e d)
                     in date_ge dateOnly
                          (case sevenDaysAgo of
                             None \<Rightarrow> None
                           | Some a \<Rightarrow> newDateYMD e (getFullYear e a) (getMonth e a) (getDate e a)))
                  else (getFullYear e d = getFullYear e now \<and> getMonth e d = getMonth e now))))"

definition filteredExpenses :: "env \<Rightarrow> int \<Rightarrow> time_filter \<Rightarrow> expense list \<Rightarrow> expense list" where
  "filteredExpenses e now flt xs = filter (inWindow e now flt) xs"

text \<open>The callback of \<^verbatim>\<open>finalFiltered\<close> (lines 516 to 518).\<close>

definition categoryMatches :: "string \<Rightarrow> expense \<Rightarrow> bool" where
  "categoryMatches cf it = (if cf = ''all'' then True else category it = Some cf)"

definition finalFiltered :: "string \<Rightarrow> expense list \<Rightarrow> expense list" where
  "finalFiltered cf xs = filter (categoryMatches cf) xs"

subsection \<open>The aggregates\<close>

text \<open>
  \<^verbatim>\<open>visibleTotal\<close> (lines 521 to 524): the fold over a list of records.
\<close>

definition sumStep :: "jsnum \<Rightarrow> expense \<Rightarrow> jsnum" where
  "sumStep s it = fadd s (orZero (amountNumber (amount it)))"

definition total :: "expense list \<Rightarrow> jsnum" where
  "total xs = foldl sumStep (Num 0) xs"

text \<open>
  \<^verbatim>\<open>totalsByCategory\<close> (lines 504 to 509) folds into the object literal \<^verbatim>\<open>{}\<close>. Such an
  object is not an empty dictionary: a read of a key it does not own is answered by
  \<^verbatim>\<open>Object.prototype\<close>. For the names below the read yields a function (or, for
  \<^verbatim>\<open>__proto__\<close>, the prototype object), which is truthy, so \<^verbatim>\<open>(acc[cat] || 0) + n\<close> is a
  string concatenation. The object is modelled by the list of its own properties in the
  order in which \<^verbatim>\<open>Object.entries\<close> lists them; a property holds a number or such a string,
  whose text is not modelled.
\<close>

datatype total_val = Number jsnum | Text

definition objectPrototypeKeys :: "string list" where
  "objectPrototypeKeys =
     [''constructor'', ''toString'', ''toLocaleString'', ''valueOf'', ''hasOwnProperty'',
      ''isPrototypeOf'', ''propertyIsEnumerable'', ''__proto__'', ''__defineGetter__'',
      ''__defineSetter__'', ''__lookupGetter__'', ''__lookupSetter__'']"

text \<open>
  \<^verbatim>\<open>acc[cat] || 0\<close>: the number 0 stands for a missing entry and for a stored 0 or NaN; a
  stored string is not empty, hence truthy.
\<close>

definition readOrZero :: "(string \<times> total_val) list \<Rightarrow> string \<Rightarrow> total_val" where
  "readOrZero acc cat =
     (case map_of acc cat of
        Some (Number n) \<Rightarrow> Number (if truthy n then n else Num 0)
      | Some Text \<Rightarrow> Text
      | None \<Rightarrow> if cat \<in> set objectPrototypeKeys then Text else Number (Num 0))"

text \<open>\<^verbatim>\<open>v + n\<close> for a number \<open>n\<close>.\<close>

fun plusNumber :: "total_val \<Rightarrow> jsnum \<Rightarrow> total_val" where
  "plusNumber (Number r) n = Number (fadd r n)"
| "plusNumber Text n = Text"

text \<open>
  The keys of an object are listed with the array indices first, in ascending order, and
  the other strings after them in the order of their creation. An array index is the
  canonical decimal text of an integer from 0 to \<open>2\<^sup>3\<^sup>2 - 2\<close>.
\<close>

definition arrayIndex :: "string \<Rightarrow> int option" where
  "arrayIndex k =
     (if k \<noteq> [] \<and> list_all is_digit k \<and> (k = ''0'' \<or> hd k \<noteq> CHR ''0'')
         \<and> digits_val k < 4294967295
      then Some (digits_val k) else None)"

definition indexBelow :: "int \<Rightarrow> string \<times> total_val \<Rightarrow> bool" where
  "indexBelow i en = (case arrayIndex (fst en) of Some j \<Rightarrow> j < i | None \<Rightarrow> False)"

text \<open>
  \<^verbatim>\<open>acc[cat] = v\<close>: an own property is replaced in place, a new one takes its place in the
  order of the keys. The key \<^verbatim>\<open>__proto__\<close> is an accessor of the prototype, whose setter
  ignores a value that is not an object.
\<close>

definition assign :: "(string \<times> total_val) list \<Rightarrow> string \<Rightarrow> total_val \<Rightarrow> (string \<times> total_val) list" where
  "assign acc k v =
     (if k \<in> set (map fst acc) then map (\<lambda>en. if fst en = k then (k, v) else en) acc
      else (case arrayIndex k of
              None \<Rightarrow> acc @ [(k, v)]
            | Some i \<Rightarrow> takeWhile (indexBelow i) acc @ (k, v) # dropWhile (indexBelow i) acc))"

definition categoryLabel :: "expense \<Rightarrow> string" where
  "categoryLabel it = (case category it of None \<Rightarrow> ''Other'' | Some c \<Rightarrow> if c = [] then ''Other'' else c)"

definition totalsStep :: "(string \<times> total_val) list \<Rightarrow> expense \<Rightarrow> (string \<times> total_val) list" where
  "totalsStep acc it =
     (let cat = categoryLabel it;
          n = amountNumber (amount it);
          v = plusNumber (readOrZero acc cat) (orZero n)
      in if cat = ''__proto__'' then acc else assign acc cat v)"

definition totalsByCategory :: "expense list \<Rightarrow> (string \<times> total_val) list" where
  "totalsByCategory xs = foldl totalsStep [] xs"

text \<open>
  \<^verbatim>\<open>Object.values(totalsByCategory).reduce((s, v) => s + v, 0)\<close> (line 669): the sum shown in
  the row "All".
\<close>

fun plusVal :: "total_val \<Rightarrow> total_val \<Rightarrow> total_val" where
  "plusVal (Number a) (Number b) = Number (fadd a b)"
| "plusVal a b = Text"

definition sumOfValues :: "(string \<times> total_val) list \<Rightarrow> total_val" where
  "sumOfValues acc = foldl plusVal (Number (Num 0)) (map snd acc)"

text \<open>
  What the component derives on a render (lines 479 to 524), from the state and the clock.
\<close>

definition shownFiltered :: "env \<Rightarrow> int \<Rightarrow> screen \<Rightarrow> expense list" where
  "shownFiltered e now st = filteredExpenses e now (timeFilter st) (expenses st)"

definition shownTotals :: "env \<Rightarrow> int \<Rightarrow> screen \<Rightarrow> (string \<times> total_val) list" where
  "shownTotals e now st = totalsByCategory (shownFiltered e now st)"

definition shownFinal :: "env \<Rightarrow> int \<Rightarrow> screen \<Rightarrow> expense list" where
  "shownFinal e now st = finalFiltered (categoryFilter st) (shownFiltered e now st)"

definition visibleTotal :: "env \<Rightarrow> int \<Rightarrow> screen \<Rightarrow> jsnum" where
  "visibleTotal e now st = total (shownFinal e now st)"

subsection \<open>The legend of the pie chart\<close>

text \<open>The decimal digits of a natural number.\<close>

function decimal :: "nat \<Rightarrow> string" where
  "decimal k = (if k < 10 then [digit_char k] else decimal (k div 10) @ [digit_char k])"
  by pat_completeness auto
termination
  by (relation "measure id") auto

declare decimal.simps [simp del]

text \<open>
  \<^verbatim>\<open>x.toFixed(1)\<close> after ECMA-262: a number that is not finite gives its name; the sign is
  split off; from \<open>10\<^sup>2\<^sup>1\<close> on the result is the number's own string (exponential notation,
  whose text is not modelled); below, it is the decimal text of the integer \<open>n\<close> for which
  \<open>n / 10\<close> is nearest to the exact value of the double \<open>x\<close>, the larger \<open>n\<close> when two are
  equally near.
\<close>

datatype num_text = Digits string | Exponential rat

definition tenths :: "rat \<Rightarrow> int" where
  "tenths x = \<lfloor>10 * \<bar>x\<bar> + 1 / 2\<rfloor>"

definition fixedText :: "bool \<Rightarrow> int \<Rightarrow> string" where
  "fixedText neg n =
     (if neg then ''-'' else []) @ decimal (nat (n div 10)) @ ''.'' @ [digit_char (nat (n mod 10))]"

fun toFixed1 :: "jsnum \<Rightarrow> num_text" where
  "toFixed1 (Num x) =
     (if 10 ^ 21 \<le> \<bar>x\<bar> then Exponential x else Digits (fixedText (x < 0) (tenths x)))"
| "toFixed1 NaN = Digits ''NaN''"
| "toFixed1 PosInf = Digits ''Infinity''"
| "toFixed1 NegInf = Digits ''-Infinity''"

text \<open>
  \<^verbatim>\<open>pieEntries\<close> (line 512) are the entries sorted by descending total (the sort is stable),
  and \<^verbatim>\<open>pct\<close> (lines 644 and 645) is computed for each of them from the sum of all of them.
  The legend of numeric totals:
\<close>

definition pieEntries :: "(string \<times> rat) list \<Rightarrow> (string \<times> rat) list" where
  "pieEntries es = sort_key (\<lambda>en. - snd en) es"

definition pct :: "jsnum \<Rightarrow> rat \<Rightarrow> num_text" where
  "pct tot v = (if truthy tot then toFixed1 (fmul (fdiv (Num v) tot) (Num 100)) else Digits ''0.0'')"

text \<open>\<^verbatim>\<open>pieEntries.reduce((s, [, v]) => s + v, 0)\<close>\<close>

definition legendTotal :: "(string \<times> rat) list \<Rightarrow> jsnum" where
  "legendTotal es = foldl fadd (Num 0) (map (\<lambda>en. Num (snd en)) (pieEntries es))"

definition legendPercents :: "(string \<times> rat) list \<Rightarrow> (string \<times> num_text) list" where
  "legendPercents es = map (\<lambda>en. (fst en, pct (legendTotal es) (snd en))) (pieEntries es)"

text \<open>
  The legend is defined for totals that are finite numbers. Rendering it throws a
  TypeError when a total is a string, which has no method \<^verbatim>\<open>toFixed\<close> (line 650); totals
  that are infinite or NaN are left out (where \<^verbatim>\<open>sort\<close> leaves an entry whose comparisons
  yield NaN is implementation-defined). In both cases the result is \<open>None\<close>.
\<close>

fun numeric :: "(string \<times> total_val) list \<Rightarrow> (string \<times> rat) list option" where
  "numeric [] = Some []"
| "numeric ((k, Number (Num r)) # acc) = map_option (\<lambda>es. (k, r) # es) (numeric acc)"
| "numeric (en # acc) = None"

definition legend :: "(string \<times> total_val) list \<Rightarrow> (string \<times> num_text) list option" where
  "legend acc = map_option legendPercents (numeric acc)"

subsection \<open>A sample environment\<close>

text \<open>
  For the examples: an engine whose fallback date parser accepts nothing, at a given offset
  from UTC.
\<close>

definition engine :: "int \<Rightarrow> env" where
  "engine tz = \<lparr>legacyDateParse = (\<lambda>s. None), LocalTZA = tz\<rparr>"

definition emptyScreen :: screen where
  "emptyScreen =
     \<lparr>table_rows = [], table_seq = 0, expenses = [], amountText = [], categoryText = [],
      noteText = [], dateText = [], timeFilter = FilterAll, categoryFilter = ''all'',
      editingId = None\<rparr>"

definition row :: "int \<Rightarrow> rat \<Rightarrow> string \<Rightarrow> string option \<Rightarrow> expense" where
  "row i a c d =
     \<lparr>id_col = i, amount = SqlNum (Num a), category = Some c, note_col = None, date = d\<rparr>"

text \<open>The number a total holds (0 for a text), and the total stored for a key (0 when none is).\<close>

fun numberOf :: "total_val \<Rightarrow> jsnum" where
  "numberOf (Number n) = n"
| "numberOf Text = Num 0"

definition storedNumber :: "(string \<times> total_val) list \<Rightarrow> string \<Rightarrow> jsnum" where
  "storedNumber acc k = (case map_of acc k of None \<Rightarrow> Num 0 | Some v \<Rightarrow> numberOf v)"

text \<open>Sample inputs of the examples below.\<close>

definition twoCategories :: screen where
  "twoCategories =
     emptyScreen\<lparr>expenses := [row 2 10 ''Food'' None, row 1 5 ''Rent'' None],
                  categoryFilter := ''Food''\<rparr>"

definition specRecords :: "expense list" where
  "specRecords = [row 3 10 ''Food'' None, row 2 5 ''Food'' None, row 1 3 ''Rent'' None]"

text \<open>
  Noon of 2024-03-07 in a zone five hours west of UTC, as a time value
  (2024-03-07T17:00:00Z).
\<close>

definition noonMarch7 :: int where
  "noonMarch7 = 1709830800000"

definition fiveHoursWest :: int where
  "fiveHoursWest = - 18000000"

section \<open>Rounding to a double\<close>

text \<open>
  The binary exponent is the one the standard names, a rational between two neighbouring
  doubles is rounded to the nearer one, and a number that is a double (an integer of less
  than 53 bits times a power of two in range) is rounded to itself.
\<close>

lemma pow2_pos: "0 < pow2 k"
  by (simp add: pow2_def)

lemma pow2_Suc: "pow2 (k + 1) = 2 * pow2 k"
proof (cases "0 \<le> k")
  case True
  then show ?thesis by (simp add: pow2_def nat_add_distrib)
next
  case False
  then have "nat (- k) = Suc (nat (- (k + 1)))" by simp
  then show ?thesis using False by (simp add: pow2_def)
qed

lemma pow2_Suc': "pow2 (1 + k) = 2 * pow2 k"
  using pow2_Suc [of k] by (simp add: add.commute)

lemma pow2_pred: "pow2 (k - 1) = pow2 k / 2"
  using pow2_Suc [of "k - 1"] by simp

lemma pow2_add: "pow2 (j + k) = pow2 j * pow2 k"
proof -
  have nn: "pow2 (j + int n) = pow2 j * pow2 (int n)" for n j
  proof (induction n)
    case 0
    show ?case by (simp add: pow2_def [of 0])
  next
    case (Suc n)
    have "pow2 (j + int (Suc n)) = pow2 ((j + int n) + 1)" by (simp add: ac_simps)
    also have "\<dots> = 2 * (pow2 j * pow2 (int n))" by (simp only: pow2_Suc Suc)
    also have "\<dots> = pow2 j * pow2 (int n + 1)" by (simp only: pow2_Suc)
    also have "int n + 1 = int (Suc n)" by simp
    finally show ?case .
  qed
  show ?thesis
  proof (cases "0 \<le> k")
    case True
    then show ?thesis using nn [of j "nat k"] by simp
  next
    case False
    define m where "m = nat (- k)"
    have k: "k = - int m" using False by (simp add: m_def)
    have 1: "pow2 (j + k) * pow2 (int m) = pow2 j" using nn [of "j + k" m] by (simp add: k)
    have 2: "pow2 k * pow2 (int m) = 1" using nn [of k m] by (simp add: k pow2_def [of 0])
    have "pow2 j * pow2 k = pow2 (j + k) * (pow2 k * pow2 (int m))"
      by (simp add: 1 [symmetric] mult_ac)
    then show ?thesis by (simp add: 2)
  qed
qed

lemma pow2_mono: "j \<le> k \<Longrightarrow> pow2 j \<le> pow2 k"
proof -
  assume "j \<le> k"
  have "1 \<le> pow2 (int (nat (k - j)))" by (simp add: pow2_def)
  then have "pow2 j * 1 \<le> pow2 j * pow2 (int (nat (k - j)))"
    using pow2_pos [of j] by (intro mult_left_mono) simp_all
  then have "pow2 j \<le> pow2 (j + int (nat (k - j)))" by (simp add: pow2_add)
  then show ?thesis using \<open>j \<le> k\<close> by simp
qed

lemma pow2_strict_mono: "j < k \<Longrightarrow> pow2 j < pow2 k"
proof -
  assume "j < k"
  then have "pow2 (j + 1) \<le> pow2 k" by (intro pow2_mono) simp
  then show ?thesis using pow2_pos [of j] by (simp add: pow2_Suc)
qed

lemma ilog2_bounds: "0 < x \<Longrightarrow> pow2 (ilog2 x) \<le> x \<and> x < pow2 (ilog2 x + 1)"
proof (induction x rule: ilog2.induct)
  case (1 x)
  show ?case
  proof (cases "2 \<le> x")
    case True
    then have "pow2 (ilog2 (x / 2)) \<le> x / 2 \<and> x / 2 < pow2 (ilog2 (x / 2) + 1)"
      using 1 by simp
    moreover have "ilog2 x = ilog2 (x / 2) + 1" using True 1(3) by (subst ilog2.simps) simp
    ultimately show ?thesis by (simp only: pow2_Suc) simp
  next
    case False
    show ?thesis
    proof (cases "x < 1")
      case True
      then have "pow2 (ilog2 (2 * x)) \<le> 2 * x \<and> 2 * x < pow2 (ilog2 (2 * x) + 1)"
        using 1 False by simp
      moreover have "ilog2 x = ilog2 (2 * x) - 1" using True False 1(3) by (subst ilog2.simps) simp
      ultimately show ?thesis by (simp add: pow2_Suc pow2_pred)
    next
      case b: False
      then have "ilog2 x = 0" using False 1(3) by (subst ilog2.simps) simp
      then show ?thesis using False b by (simp add: pow2_def)
    qed
  qed
qed

lemma ilog2_unique:
  assumes "pow2 e \<le> x" "x < pow2 (e + 1)"
  shows "ilog2 x = e"
proof -
  have x: "0 < x" using assms(1) pow2_pos [of e] by simp
  note b = ilog2_bounds [OF x]
  have "\<not> ilog2 x < e"
  proof
    assume "ilog2 x < e"
    then have "pow2 (ilog2 x + 1) \<le> pow2 e" by (intro pow2_mono) simp
    then show False using b assms by simp
  qed
  moreover have "\<not> e < ilog2 x"
  proof
    assume "e < ilog2 x"
    then have "pow2 (e + 1) \<le> pow2 (ilog2 x)" by (intro pow2_mono) simp
    then show False using b assms by simp
  qed
  ultimately show ?thesis by simp
qed

lemma roundTiesToEven_near: "\<bar>of_int (roundTiesToEven z) - z\<bar> \<le> 1 / 2"
proof -
  have "of_int \<lfloor>z\<rfloor> \<le> z" "z < of_int \<lfloor>z\<rfloor> + 1" by linarith+
  then show ?thesis by (auto simp add: roundTiesToEven_def Let_def)
qed

lemma roundTiesToEven_unique:
  assumes "\<bar>z - of_int n\<bar> < 1 / 2"
  shows "roundTiesToEven z = n"
proof -
  have "\<bar>of_int (roundTiesToEven z) - z\<bar> \<le> 1 / 2" by (rule roundTiesToEven_near)
  then have "\<bar>(of_int (roundTiesToEven z) :: rat) - of_int n\<bar> < 1" using assms by linarith
  then have "\<bar>(of_int (roundTiesToEven z - n) :: rat)\<bar> < 1" by simp
  then have "\<bar>roundTiesToEven z - n\<bar> < 1" by (simp only: of_int_abs [symmetric] of_int_less_1_iff)
  then show ?thesis by simp
qed

lemma roundTiesToEven_of_int: "roundTiesToEven (of_int n) = n"
  by (rule roundTiesToEven_unique) simp

lemma fl_nearest:
  assumes "pow2 e \<le> a" "a < pow2 (e + 1)" "- 1022 \<le> e" "e \<le> 1022"
    and "\<bar>a / pow2 (e - 52) - of_int n\<bar> < 1 / 2"
  shows "fl a = Num (of_int n * pow2 (e - 52))"
proof -
  have a: "0 < a" using assms(1) pow2_pos [of e] by simp
  have e: "ilog2 a = e" using assms(1,2) by (rule ilog2_unique)
  have r: "roundTiesToEven (a / pow2 (e - 52)) = n" using assms(5) by (rule roundTiesToEven_unique)
  have s: "pow2 (e + 1) = pow2 53 * pow2 (e - 52)"
  proof -
    have "e + 1 = 53 + (e - 52)" by simp
    then have "pow2 (e + 1) = pow2 (53 + (e - 52))" by (rule arg_cong)
    then show ?thesis by (simp only: pow2_add)
  qed
  have "a / pow2 (e - 52) < pow2 53"
    using assms(2) pow2_pos [of "e - 52"] by (simp add: pos_divide_less_eq s)
  then have "of_int n < pow2 53 + 1 / 2" using assms(5) by linarith
  then have "(of_int n :: rat) < of_int (2 ^ 53) + 1 / 2" by (simp add: pow2_def)
  then have "(of_int n :: rat) < of_int (2 ^ 53 + 1)" by simp
  then have "n < 2 ^ 53 + 1" by (simp only: of_int_less_iff)
  then have "n \<le> 2 ^ 53" by simp
  then have "(of_int n :: rat) \<le> of_int (2 ^ 53)" by (simp only: of_int_le_iff)
  then have "(of_int n :: rat) \<le> pow2 53" by (simp add: pow2_def)
  then have "of_int n * pow2 (e - 52) \<le> pow2 53 * pow2 (e - 52)"
    using pow2_pos [of "e - 52"] by (intro mult_right_mono) simp_all
  also have "\<dots> = pow2 (e + 1)" by (simp only: s)
  also have "\<dots> < pow2 1024" using assms(4) by (intro pow2_strict_mono) simp
  finally have y: "\<not> pow2 1024 \<le> of_int n * pow2 (e - 52)" by simp
  have m: "max (ilog2 \<bar>a\<bar>) (- 1022) = e" using e a assms(3) by simp
  show ?thesis
    unfolding fl_def Let_def m using a y by (simp add: r)
qed

lemma roundTiesToEven_half:
  "roundTiesToEven (of_int n + 1 / 2) = (if even n then n else n + 1)"
proof -
  have "\<lfloor>(of_int n :: rat) + 1 / 2\<rfloor> = n" by (rule floor_unique) simp_all
  then show ?thesis by (simp add: roundTiesToEven_def)
qed

lemma fl_tie:
  assumes "pow2 e \<le> a" "a < pow2 (e + 1)" "- 1022 \<le> e" "e \<le> 1022"
    and "a / pow2 (e - 52) = of_int n + 1 / 2"
  shows "fl a = Num (of_int (if even n then n else n + 1) * pow2 (e - 52))"
proof -
  define m where "m = (if even n then n else n + 1)"
  have a: "0 < a" using assms(1) pow2_pos [of e] by simp
  have e: "ilog2 a = e" using assms(1,2) by (rule ilog2_unique)
  have r: "roundTiesToEven (a / pow2 (e - 52)) = m"
    unfolding assms(5) m_def by (rule roundTiesToEven_half)
  have s: "pow2 (e + 1) = pow2 53 * pow2 (e - 52)"
  proof -
    have "e + 1 = 53 + (e - 52)" by simp
    then have "pow2 (e + 1) = pow2 (53 + (e - 52))" by (rule arg_cong)
    then show ?thesis by (simp only: pow2_add)
  qed
  have "a / pow2 (e - 52) < pow2 53"
    using assms(2) pow2_pos [of "e - 52"] by (simp add: pos_divide_less_eq s)
  then have "(of_int n :: rat) + 1 / 2 < pow2 53" by (simp only: assms(5))
  then have "(of_int n :: rat) + 1 / 2 < of_int (2 ^ 53)" by (simp add: pow2_def)
  then have "(of_int n :: rat) < of_int (2 ^ 53)" by linarith
  then have "n < 2 ^ 53" by (simp only: of_int_less_iff)
  then have "m \<le> 2 ^ 53" by (simp add: m_def)
  then have "(of_int m :: rat) \<le> of_int (2 ^ 53)" by (simp only: of_int_le_iff)
  then have "(of_int m :: rat) \<le> pow2 53" by (simp add: pow2_def)
  then have "of_int m * pow2 (e - 52) \<le> pow2 53 * pow2 (e - 52)"
    using pow2_pos [of "e - 52"] by (intro mult_right_mono) simp_all
  also have "\<dots> = pow2 (e + 1)" by (simp only: s)
  also have "\<dots> < pow2 1024" using assms(4) by (intro pow2_strict_mono) simp
  finally have y: "\<not> pow2 1024 \<le> of_int m * pow2 (e - 52)" by simp
  have mx: "max (ilog2 \<bar>a\<bar>) (- 1022) = e" using e a assms(3) by simp
  show ?thesis
    unfolding fl_def Let_def mx m_def [symmetric] using a y by (simp add: r)
qed

lemma pow2_nat: "pow2 (int j) = 2 ^ j"
  by (simp add: pow2_def)

lemma ilog2_less:
  assumes "0 < a" "a < pow2 k"
  shows "ilog2 a < k"
proof (rule ccontr)
  assume "\<not> ilog2 a < k"
  then have "pow2 k \<le> pow2 (ilog2 a)" by (intro pow2_mono) simp
  then show False using ilog2_bounds [OF assms(1)] assms(2) by simp
qed

lemma fl_representable:
  assumes "\<bar>m\<bar> < 2 ^ 53" "- 1074 \<le> k" "k \<le> 971"
  shows "fl (of_int m * pow2 k) = Num (of_int m * pow2 k)"
proof (cases "m = 0")
  case True
  then show ?thesis by (simp add: fl_def)
next
  case False
  define x where "x = of_int m * pow2 k"
  define a where "a = \<bar>x\<bar>"
  have a_eq: "a = of_int \<bar>m\<bar> * pow2 k"
    using pow2_pos [of k] by (simp add: a_def x_def abs_mult)
  have a_pos: "0 < a" using False pow2_pos [of k] by (simp add: a_eq)
  have x0: "x \<noteq> 0" using a_pos by (simp add: a_def)
  define q where "q = max (ilog2 a) (- 1022)"
  have "(of_int \<bar>m\<bar> :: rat) < of_int (2 ^ 53)" using assms(1) by (simp only: of_int_less_iff)
  then have "(of_int \<bar>m\<bar> :: rat) < pow2 53" by (simp add: pow2_def)
  then have "a < pow2 53 * pow2 k" using pow2_pos [of k] by (simp add: a_eq)
  then have a_less: "a < pow2 (53 + k)" by (simp only: pow2_add)
  have "ilog2 a < 53 + k" using a_pos a_less by (rule ilog2_less)
  then have q_le: "q \<le> k + 52" using assms(2) by (simp add: q_def)
  define j where "j = nat (k + 52 - q)"
  have "k = int j + (q - 52)" using q_le by (simp add: j_def)
  then have "pow2 k = pow2 (int j + (q - 52))" by (rule arg_cong)
  then have pk: "pow2 k = 2 ^ j * pow2 (q - 52)" by (simp only: pow2_add pow2_nat)
  have quot: "a / pow2 (q - 52) = of_int (\<bar>m\<bar> * 2 ^ j)"
    using pow2_pos [of "q - 52"] by (simp add: a_eq pk)
  have r: "roundTiesToEven (a / pow2 (q - 52)) = \<bar>m\<bar> * 2 ^ j"
    unfolding quot by (rule roundTiesToEven_of_int)
  have y: "of_int (\<bar>m\<bar> * 2 ^ j) * pow2 (q - 52) = a"
    by (simp add: a_eq pk)
  have "pow2 (53 + k) \<le> pow2 1024" using assms(3) by (intro pow2_mono) simp
  then have ov: "\<not> pow2 1024 \<le> a" using a_less by simp
  have "fl x = Num (if x < 0 then - a else a)"
    unfolding fl_def Let_def a_def [symmetric] q_def [symmetric] r y using x0 ov by simp
  then show ?thesis by (simp add: a_def x_def [symmetric])
qed

lemma fl_of_int:
  assumes "\<bar>n\<bar> < 2 ^ 53"
  shows "fl (of_int n) = Num (of_int n)"
  using fl_representable [OF assms, of 0] by (simp add: pow2_def)

lemma fl_numeral:
  "(numeral k :: int) < 9007199254740992 \<Longrightarrow> fl (numeral k) = Num (numeral k)"
  "(numeral k :: int) < 9007199254740992 \<Longrightarrow> fl (- numeral k) = Num (- numeral k)"
  "fl 0 = Num 0" "fl 1 = Num 1"
  using fl_of_int [of "numeral k"] fl_of_int [of "- numeral k"] fl_of_int [of 0] fl_of_int [of 1]
  by simp_all

lemma fl_dyadic:
  assumes "\<bar>m\<bar> < 2 ^ 53" "j \<le> 1074"
  shows "fl (of_int m / 2 ^ j) = Num (of_int m / 2 ^ j)"
proof -
  have "pow2 (- int j) = 1 / 2 ^ j" by (simp add: pow2_def)
  then show ?thesis using fl_representable [OF assms(1), of "- int j"] assms(2) by simp
qed



section \<open>The calendar arithmetic of the model is that of the standard\<close>

lemma div_step:
  fixes n k :: int
  assumes k: "0 < k"
  shows "(n + 1) div k = n div k + (if (n + 1) mod k = 0 then 1 else 0)"
proof -
  define q where "q = n div k"
  define r where "r = n mod k"
  have n: "n = k * q + r" and r: "0 \<le> r" "r < k"
    using k by (simp_all add: q_def r_def)
  show ?thesis
  proof (cases "r = k - 1")
    case True
    then have e: "n + 1 = k * (q + 1) + 0" using n by (simp add: algebra_simps)
    have "(n + 1) div k = q + 1" by (rule int_div_pos_eq [OF e]) (use k in simp_all)
    moreover have "(n + 1) mod k = 0" by (rule int_mod_pos_eq [OF e]) (use k in simp_all)
    ultimately show ?thesis by (simp add: q_def)
  next
    case False
    then have r1: "0 \<le> r + 1" "r + 1 < k" using r by simp_all
    have e: "n + 1 = k * q + (r + 1)" using n by simp
    have "(n + 1) div k = q" by (rule int_div_pos_eq [OF e r1])
    moreover have "(n + 1) mod k = r + 1" by (rule int_mod_pos_eq [OF e r1])
    ultimately show ?thesis using r by (simp add: q_def)
  qed
qed

lemma mod_shift:
  fixes y c k :: int
  assumes "c mod k = 0"
  shows "(y - c) mod k = y mod k"
proof -
  from assms obtain m where "c = k * m" by auto
  then show ?thesis by (simp add: mod_diff_right_eq [symmetric])
qed

lemma leap_step_4: "(y - 1968) div 4 = (y - 1969) div 4 + (if y mod 4 = 0 then 1 else 0)" for y :: int
  using div_step [of 4 "y - 1969"] mod_shift [of 1968 4 y] by simp

lemma leap_step_100: "(y - 1900) div 100 = (y - 1901) div 100 + (if y mod 100 = 0 then 1 else 0)" for y :: int
  using div_step [of 100 "y - 1901"] mod_shift [of 1900 100 y] by simp

lemma leap_step_400: "(y - 1600) div 400 = (y - 1601) div 400 + (if y mod 400 = 0 then 1 else 0)" for y :: int
  using div_step [of 400 "y - 1601"] mod_shift [of 1600 400 y] by simp

lemma mod_100_4:
  fixes y :: int
  assumes "y mod 100 = 0"
  shows "y mod 4 = 0"
proof -
  have "100 dvd y" using assms by (simp add: mod_eq_0_iff_dvd)
  moreover have "(4::int) dvd 100" by simp
  ultimately have "4 dvd y" by (rule dvd_trans [rotated])
  then show ?thesis by (simp add: mod_eq_0_iff_dvd)
qed

lemma mod_400_100:
  fixes y :: int
  assumes "y mod 400 = 0"
  shows "y mod 100 = 0"
proof -
  have "400 dvd y" using assms by (simp add: mod_eq_0_iff_dvd)
  moreover have "(100::int) dvd 400" by simp
  ultimately have "100 dvd y" by (rule dvd_trans [rotated])
  then show ?thesis by (simp add: mod_eq_0_iff_dvd)
qed

lemma DaysInYear_indicators:
  "DaysInYear y = 365 + (if y mod 4 = 0 then 1 else 0) - (if y mod 100 = 0 then 1 else 0)
     + (if y mod 400 = 0 then 1 else 0)"
  using mod_100_4 [of y] mod_400_100 [of y] by (simp add: DaysInYear_def)

lemma DayFromYear_Suc: "DayFromYear (y + 1) = DayFromYear y + DaysInYear y"
proof -
  define a b c where "a = (y - 1969) div 4" and "b = (y - 1901) div 100" and "c = (y - 1601) div 400"
  define i4 i100 i400 :: int where "i4 = (if y mod 4 = 0 then 1 else 0)"
    and "i100 = (if y mod 100 = 0 then 1 else 0)" and "i400 = (if y mod 400 = 0 then 1 else 0)"
  have s: "y + 1 - 1969 = y - 1968" "y + 1 - 1901 = y - 1900" "y + 1 - 1601 = y - 1600"
    "y + 1 - 1970 = y - 1970 + 1" by simp_all
  have "DayFromYear (y + 1) = 365 * (y - 1970 + 1) + (a + i4) - (b + i100) + (c + i400)"
    unfolding DayFromYear_def s leap_step_4 leap_step_100 leap_step_400
      a_def b_def c_def i4_def i100_def i400_def ..
  moreover have "DayFromYear y = 365 * (y - 1970) + a - b + c"
    unfolding DayFromYear_def a_def b_def c_def ..
  moreover have "DaysInYear y = 365 + i4 - i100 + i400"
    unfolding i4_def i100_def i400_def by (rule DaysInYear_indicators)
  ultimately show ?thesis by (simp add: algebra_simps)
qed

lemma DaysInYear_cases: "DaysInYear y = 365 \<or> DaysInYear y = 366"
  by (simp add: DaysInYear_def)

lemma DayFromYear_mono:
  assumes "y \<le> z"
  shows "DayFromYear y \<le> DayFromYear z"
  using assms
proof (induction z rule: int_ge_induct)
  case base
  show ?case by simp
next
  case (step i)
  have "DayFromYear i \<le> DayFromYear (i + 1)"
    using DaysInYear_cases [of i] by (auto simp add: DayFromYear_Suc)
  with step show ?case by simp
qed

lemma DayFromYear_strict_mono:
  assumes "y < z"
  shows "DayFromYear y < DayFromYear z"
proof -
  have "DayFromYear y < DayFromYear (y + 1)"
    using DaysInYear_cases [of y] by (auto simp add: DayFromYear_Suc)
  also have "DayFromYear (y + 1) \<le> DayFromYear z"
    using assms by (intro DayFromYear_mono) simp
  finally show ?thesis .
qed

lemma DayFromYear_upper_bound: "400 * DayFromYear y \<le> 146097 * (y - 1970) + 589"
proof -
  define a b c where "a = (y - 1969) div 4" and "b = (y - 1901) div 100" and "c = (y - 1601) div 400"
  have a: "4 * a \<le> y - 1969" unfolding a_def by linarith
  have b: "y - 1901 - 99 \<le> 100 * b" unfolding b_def by linarith
  have c: "400 * c \<le> y - 1601" unfolding c_def by linarith
  have e: "400 * DayFromYear y = 146000 * (y - 1970) + 100 * (4 * a) - 4 * (100 * b) + 400 * c"
    unfolding DayFromYear_def a_def b_def c_def by simp
  have 1: "100 * (4 * a) \<le> 100 * (y - 1969)" using a by simp
  have 2: "4 * (y - 1901 - 99) \<le> 4 * (100 * b)" using b by simp
  have "400 * DayFromYear y
      \<le> 146000 * (y - 1970) + 100 * (y - 1969) - 4 * (y - 1901 - 99) + (y - 1601)"
    unfolding e using 1 2 c by linarith
  also have "\<dots> = 146097 * (y - 1970) + 589" by simp
  finally show ?thesis .
qed

lemma DayFromYear_lower_bound: "146097 * (y - 1970) - 506 \<le> 400 * DayFromYear y"
proof -
  define a b c where "a = (y - 1969) div 4" and "b = (y - 1901) div 100" and "c = (y - 1601) div 400"
  have a: "y - 1969 - 3 \<le> 4 * a" unfolding a_def by linarith
  have b: "100 * b \<le> y - 1901" unfolding b_def by linarith
  have c: "y - 1601 - 399 \<le> 400 * c" unfolding c_def by linarith
  have e: "400 * DayFromYear y = 146000 * (y - 1970) + 100 * (4 * a) - 4 * (100 * b) + 400 * c"
    unfolding DayFromYear_def a_def b_def c_def by simp
  have 1: "100 * (y - 1969 - 3) \<le> 100 * (4 * a)" using a by simp
  have 2: "4 * (100 * b) \<le> 4 * (y - 1901)" using b by simp
  have "146097 * (y - 1970) - 506
      = 146000 * (y - 1970) + 100 * (y - 1969 - 3) - 4 * (y - 1901) + (y - 1601 - 399)"
    by simp
  also have "\<dots> \<le> 400 * DayFromYear y"
    unfolding e using 1 2 c by linarith
  finally show ?thesis .
qed

lemma year_estimate_low: "DayFromYear (1970 + (400 * d) div 146097 - 1) \<le> d"
proof -
  define q where "q = (400 * d) div 146097"
  have q: "146097 * q \<le> 400 * d" unfolding q_def by linarith
  have "400 * DayFromYear (1970 + q - 1) \<le> 146097 * (q - 1) + 589"
    using DayFromYear_upper_bound [of "1970 + q - 1"] by simp
  also have "\<dots> \<le> 146097 * q" by simp
  finally have "400 * DayFromYear (1970 + q - 1) \<le> 400 * d" using q by linarith
  then show ?thesis unfolding q_def by simp
qed

lemma year_estimate_high: "d < DayFromYear (1970 + (400 * d) div 146097 + 2)"
proof -
  define q where "q = (400 * d) div 146097"
  have q: "400 * d < 146097 * q + 146097" unfolding q_def by linarith
  have "146097 * q + 146097 \<le> 146097 * (q + 2) - 506" by simp
  also have "\<dots> \<le> 400 * DayFromYear (1970 + q + 2)"
    using DayFromYear_lower_bound [of "1970 + q + 2"] by simp
  finally have "400 * d < 400 * DayFromYear (1970 + q + 2)" using q by linarith
  then show ?thesis unfolding q_def by simp
qed

lemma YearFromDay_lower: "DayFromYear (YearFromDay d) \<le> d"
  using year_estimate_low [of d] by (simp add: YearFromDay_def Let_def)

lemma YearFromDay_upper: "d < DayFromYear (YearFromDay d + 1)"
proof -
  have "1970 + 400 * d div 146097 + 1 + 1 = 1970 + 400 * d div 146097 + 2" by simp
  then show ?thesis
    using year_estimate_high [of d] by (simp add: YearFromDay_def Let_def)
qed

lemma YearFromDay_unique:
  assumes "DayFromYear y \<le> d" and "d < DayFromYear (y + 1)"
  shows "YearFromDay d = y"
proof (rule ccontr)
  assume ne: "YearFromDay d \<noteq> y"
  show False
  proof (cases "YearFromDay d < y")
    case True
    then have "DayFromYear (YearFromDay d + 1) \<le> DayFromYear y"
      by (intro DayFromYear_mono) simp
    with YearFromDay_upper [of d] assms(1) show False by simp
  next
    case False
    with ne have "y + 1 \<le> YearFromDay d" by simp
    then have "DayFromYear (y + 1) \<le> DayFromYear (YearFromDay d)"
      by (rule DayFromYear_mono)
    with YearFromDay_lower [of d] assms(2) show False by simp
  qed
qed

lemma DayWithinYear_range:
  "0 \<le> DayWithinYear t" "DayWithinYear t < 365 + InLeapYear t"
proof -
  show "0 \<le> DayWithinYear t"
    using YearFromDay_lower [of "Day t"] by (simp add: DayWithinYear_def YearFromTime_def)
  have "Day t < DayFromYear (YearFromTime t) + DaysInYear (YearFromTime t)"
    using YearFromDay_upper [of "Day t"] by (simp add: YearFromTime_def DayFromYear_Suc)
  moreover have "DaysInYear (YearFromTime t) = 365 + InLeapYear t"
    using DaysInYear_cases [of "YearFromTime t"] by (auto simp add: InLeapYear_def)
  ultimately show "DayWithinYear t < 365 + InLeapYear t"
    by (simp add: DayWithinYear_def)
qed

lemma InLeapYear_cases: "InLeapYear t = 0 \<or> InLeapYear t = 1"
  by (simp add: InLeapYear_def)

lemma MonthFromTime_range: "0 \<le> MonthFromTime t" "MonthFromTime t \<le> 11"
  by (simp_all add: MonthFromTime_def Let_def)

lemma DateFromTime_range: "1 \<le> DateFromTime t" "DateFromTime t \<le> 31"
proof -
  define d l where "d = DayWithinYear t" and "l = InLeapYear t"
  have d: "0 \<le> d" "d < 365 + l" and l: "l = 0 \<or> l = 1"
    using DayWithinYear_range [of t] InLeapYear_cases [of t] by (simp_all add: d_def l_def)
  have "1 \<le> DateFromTime t \<and> DateFromTime t \<le> 31"
    using d l unfolding DateFromTime_def MonthFromTime_def Let_def d_def [symmetric] l_def [symmetric]
    by (auto split: if_splits)
  then show "1 \<le> DateFromTime t" "DateFromTime t \<le> 31" by simp_all
qed

lemma daysBeforeMonth_of_time:
  "daysBeforeMonth (YearFromTime t) (MonthFromTime t) + DateFromTime t = DayWithinYear t + 1"
  unfolding daysBeforeMonth_def DateFromTime_def MonthFromTime_def Let_def InLeapYear_def
  by simp

lemma MakeDay_of_time:
  "MakeDay (YearFromTime t) (MonthFromTime t) dt = Day t + (dt - DateFromTime t)"
proof -
  have m: "MonthFromTime t div 12 = 0" "MonthFromTime t mod 12 = MonthFromTime t"
    using MonthFromTime_range [of t] by simp_all
  have 1: "DayFromYear (YearFromTime t) + DayWithinYear t = Day t"
    by (simp add: DayWithinYear_def)
  have "MakeDay (YearFromTime t) (MonthFromTime t) dt =
      DayFromYear (YearFromTime t) + daysBeforeMonth (YearFromTime t) (MonthFromTime t) + dt - 1"
    unfolding MakeDay_def Let_def m by simp
  with 1 daysBeforeMonth_of_time [of t] show ?thesis by linarith
qed

lemma MakeDay_below_next_year:
  assumes "0 \<le> m" "m \<le> 11" "dt \<le> 31"
  shows "MakeDay y m dt < DayFromYear (y + 1)"
proof -
  have m: "m div 12 = 0" "m mod 12 = m" using assms by simp_all
  have "daysBeforeMonth y m + dt - 1 < DaysInYear y"
    using assms DaysInYear_cases [of y] unfolding daysBeforeMonth_def Let_def
    by (auto split: if_splits)
  then show ?thesis by (simp add: MakeDay_def m DayFromYear_Suc)
qed


lemma Day_shift: "Day (t + k * msPerDay) = Day t + k"
  by (simp add: Day_def msPerDay_def)

lemma Day_times: "Day t * msPerDay + TimeWithinDay t = t"
  by (simp add: Day_def TimeWithinDay_def)

lemma Day_le_iff: "a \<le> Day t \<longleftrightarrow> a * msPerDay \<le> t"
  unfolding Day_def msPerDay_def by linarith

lemma Day_less_iff: "Day t < a \<longleftrightarrow> t < a * msPerDay"
  using Day_le_iff [of a t] by linarith

lemma TimeWithinDay_range: "0 \<le> TimeWithinDay t" "TimeWithinDay t < msPerDay"
  by (simp_all add: TimeWithinDay_def msPerDay_def)

lemma DayFromYear_2000: "DayFromYear 2000 = 10957"
  by (simp add: DayFromYear_def)

lemma year_from_2000:
  assumes "DayFromYear 2000 \<le> d"
  shows "2000 \<le> YearFromDay d"
proof (rule ccontr)
  assume "\<not> 2000 \<le> YearFromDay d"
  then have "DayFromYear (YearFromDay d + 1) \<le> DayFromYear 2000"
    by (intro DayFromYear_mono) simp
  with YearFromDay_upper [of d] assms show False by simp
qed

lemma year_up_to_99:
  assumes "YearFromDay d \<le> 99"
  shows "d < DayFromYear 100"
proof -
  have "DayFromYear (YearFromDay d + 1) \<le> DayFromYear 100"
    using assms by (intro DayFromYear_mono) simp
  with YearFromDay_upper [of d] show ?thesis by simp
qed

lemma setDate_relative: "setDate e t (getDate e t + k) = TimeClip (t + k * msPerDay)"
proof -
  define lt where "lt = LocalTime e t"
  have "MakeDate (MakeDay (YearFromTime lt) (MonthFromTime lt) (DateFromTime lt + k)) (TimeWithinDay lt)
      = (Day lt + k) * msPerDay + TimeWithinDay lt"
    by (simp add: MakeDay_of_time MakeDate_def)
  also have "\<dots> = lt + k * msPerDay"
    using Day_times [of lt] by (simp add: algebra_simps)
  finally have 1: "MakeDate (MakeDay (YearFromTime lt) (MonthFromTime lt) (DateFromTime lt + k))
      (TimeWithinDay lt) = lt + k * msPerDay" .
  have 2: "UTC e (lt + k * msPerDay) = t + k * msPerDay"
    by (simp add: UTC_def lt_def LocalTime_def)
  show ?thesis
    unfolding setDate_def Let_def getDate_def lt_def [symmetric] 1 2 ..
qed

lemma newDateYMD_of_local:
  assumes "\<not> (0 \<le> getFullYear e t \<and> getFullYear e t \<le> 99)"
  shows "newDateYMD e (getFullYear e t) (getMonth e t) (getDate e t)
     = TimeClip (Day (LocalTime e t) * msPerDay - LocalTZA e)"
proof -
  have 1: "MakeDay (getFullYear e t) (getMonth e t) (getDate e t) = Day (LocalTime e t)"
    by (simp add: getFullYear_def getMonth_def getDate_def MakeDay_of_time)
  have 2: "(if 0 \<le> getFullYear e t \<and> getFullYear e t \<le> 99 then 1900 + getFullYear e t
            else getFullYear e t) = getFullYear e t"
    using assms by (rule if_not_P)
  show ?thesis
    unfolding newDateYMD_def Let_def 2 1 by (simp add: MakeDate_def UTC_def)
qed

lemma newDateYMD_two_digit_year:
  assumes "0 \<le> getFullYear e t" and "getFullYear e t \<le> 99"
  shows "\<exists>dd. dd < DayFromYear 2000 \<and>
     newDateYMD e (getFullYear e t) (getMonth e t) (getDate e t)
       = TimeClip (dd * msPerDay - LocalTZA e)"
proof -
  define dd where "dd = MakeDay (1900 + getFullYear e t) (getMonth e t) (getDate e t)"
  have "dd < DayFromYear (1900 + getFullYear e t + 1)"
    unfolding dd_def getMonth_def getDate_def
    by (intro MakeDay_below_next_year MonthFromTime_range DateFromTime_range)
  also have "\<dots> \<le> DayFromYear 2000"
    using assms by (intro DayFromYear_mono) simp
  finally have "dd < DayFromYear 2000" .
  moreover have "newDateYMD e (getFullYear e t) (getMonth e t) (getDate e t)
       = TimeClip (dd * msPerDay - LocalTZA e)"
    using assms by (simp add: newDateYMD_def Let_def MakeDate_def UTC_def dd_def)
  ultimately show ?thesis by blast
qed

lemma TimeClip_Some: "TimeClip t = Some u \<Longrightarrow> u = t \<and> \<bar>t\<bar> \<le> 8640000000000000"
  by (simp add: TimeClip_def split: if_splits)

lemma newDateString_in_range:
  assumes "newDateString e s = Some t"
  shows "\<bar>t\<bar> \<le> 8640000000000000"
proof -
  have "\<exists>u. TimeClip u = Some t"
    using assms unfolding newDateString_def
    by (auto split: option.splits if_splits prod.splits simp add: bind_eq_Some_conv)
  then show ?thesis by (auto dest: TimeClip_Some)
qed

lemma Day_floor: "Day t * msPerDay \<le> t"
  using Day_times [of t] TimeWithinDay_range(1) [of t] by linarith

lemma date_ge_clip:
  "date_ge (TimeClip u) (Some l) \<longleftrightarrow> l \<le> u \<and> \<bar>u\<bar> \<le> 8640000000000000"
  by (simp add: TimeClip_def)

lemma week_window_by_local_days:
  assumes tz: "\<bar>LocalTZA e\<bar> \<le> msPerDay"
    and now_ok: "now \<le> 8640000000000000"
    and recent: "DayFromYear 2000 + 6 \<le> Day (LocalTime e now)"
    and parsed: "date item = Some s" "s \<noteq> []" "newDateString e s = Some t"
  shows "inWindow e now FilterWeek item \<longleftrightarrow> Day (LocalTime e now) - 6 \<le> Day (LocalTime e t)"
proof -
  define z where "z = LocalTZA e"
  define D where "D = Day (LocalTime e now)"
  define Dt where "Dt = Day (LocalTime e t)"
  define a where "a = now - 6 * msPerDay"
  define L where "L = (D - 6) * msPerDay - z"
  have z: "- 86400000 \<le> z" "z \<le> 86400000"
    using tz by (simp_all add: z_def msPerDay_def)
  have D: "10963 \<le> D"
    using recent by (simp add: D_def DayFromYear_2000)
  have "D * msPerDay \<le> LocalTime e now"
    unfolding D_def by (rule Day_floor)
  then have now_lo: "D * 86400000 \<le> now + z"
    by (simp add: LocalTime_def z_def msPerDay_def)
  have a_range: "0 \<le> a" "a \<le> 8640000000000000"
    using now_lo D z now_ok by (simp_all add: a_def msPerDay_def)
  then have a_clip: "TimeClip a = Some a"
    by (simp add: TimeClip_def)
  have "getDate e now - 6 = getDate e now + (- 6)" by simp
  then have seven: "setDate e now (getDate e now - 6) = Some a"
    using setDate_relative [of e now "- 6"] a_clip by (simp add: a_def)
  have "LocalTime e a = LocalTime e now + (- 6) * msPerDay"
    by (simp add: LocalTime_def a_def)
  then have Da: "Day (LocalTime e a) = D - 6"
    by (simp only: Day_shift D_def)
  have "DayFromYear 2000 \<le> D - 6"
    using D by (simp add: DayFromYear_2000)
  then have "2000 \<le> getFullYear e a"
    unfolding getFullYear_def YearFromTime_def Da by (rule year_from_2000)
  then have "\<not> (0 \<le> getFullYear e a \<and> getFullYear e a \<le> 99)" by simp
  then have lower_raw: "newDateYMD e (getFullYear e a) (getMonth e a) (getDate e a) = TimeClip L"
    by (simp add: newDateYMD_of_local Da L_def z_def)
  have "(D - 6) * msPerDay \<le> LocalTime e a"
    using Day_floor [of "LocalTime e a"] by (simp only: Da)
  then have L_hi: "L \<le> a"
    by (simp add: L_def LocalTime_def z_def)
  have L_lo: "0 \<le> L"
    using D z by (simp add: L_def msPerDay_def)
  have lower: "newDateYMD e (getFullYear e a) (getMonth e a) (getDate e a) = Some L"
    using L_lo L_hi a_range by (simp add: lower_raw TimeClip_def)
  have unfolded: "inWindow e now FilterWeek item
      = date_ge (newDateYMD e (getFullYear e t) (getMonth e t) (getDate e t)) (Some L)"
    using parsed by (simp add: inWindow_def Let_def seven lower)
  have t_hi: "t \<le> 8640000000000000"
    using newDateString_in_range [OF parsed(3)] by simp
  show ?thesis
  proof (cases "0 \<le> getFullYear e t \<and> getFullYear e t \<le> 99")
    case True
    then obtain dd where dd: "dd < DayFromYear 2000"
      and eq: "newDateYMD e (getFullYear e t) (getMonth e t) (getDate e t)
                 = TimeClip (dd * msPerDay - LocalTZA e)"
      using newDateYMD_two_digit_year [of e t] by blast
    have "dd * 86400000 < (D - 6) * 86400000"
      using dd D by (simp add: DayFromYear_2000)
    then have "\<not> L \<le> dd * msPerDay - LocalTZA e"
      by (simp add: L_def z_def msPerDay_def)
    then have no: "\<not> inWindow e now FilterWeek item"
      by (simp add: unfolded eq date_ge_clip)
    have "Dt < DayFromYear 100"
      using True unfolding Dt_def getFullYear_def YearFromTime_def
      by (intro year_up_to_99) simp
    also have "DayFromYear 100 < DayFromYear 2000"
      by (rule DayFromYear_strict_mono) simp
    finally have "\<not> D - 6 \<le> Dt"
      using D by (simp add: DayFromYear_2000)
    with no show ?thesis by (simp add: D_def Dt_def)
  next
    case False
    then have eq: "newDateYMD e (getFullYear e t) (getMonth e t) (getDate e t)
        = TimeClip (Dt * msPerDay - z)"
      by (simp add: newDateYMD_of_local Dt_def z_def)
    have "Dt * msPerDay \<le> LocalTime e t"
      unfolding Dt_def by (rule Day_floor)
    then have u_hi: "Dt * 86400000 - z \<le> t"
      by (simp add: LocalTime_def z_def msPerDay_def)
    have iff: "inWindow e now FilterWeek item
        \<longleftrightarrow> L \<le> Dt * msPerDay - z \<and> \<bar>Dt * msPerDay - z\<bar> \<le> 8640000000000000"
      by (simp add: unfolded eq date_ge_clip)
    show ?thesis
    proof (cases "D - 6 \<le> Dt")
      case True
      then have 1: "(D - 6) * 86400000 \<le> Dt * 86400000" by simp
      then have "0 \<le> Dt * 86400000 - z"
        using L_lo by (simp add: L_def msPerDay_def)
      with 1 u_hi t_hi have "inWindow e now FilterWeek item"
        by (simp add: iff L_def msPerDay_def)
      with True show ?thesis by (simp add: D_def Dt_def)
    next
      case False
      then have "Dt * 86400000 < (D - 6) * 86400000" by simp
      then have "\<not> inWindow e now FilterWeek item"
        by (simp add: iff L_def msPerDay_def)
      with False show ?thesis by (simp add: D_def Dt_def)
    qed
  qed
qed

lemma Day_of_midnight_east:
  assumes "0 \<le> z" and "z < msPerDay"
  shows "Day (dd * msPerDay + z) = dd"
proof -
  have "dd * msPerDay + z = msPerDay * dd + z" by simp
  then show ?thesis unfolding Day_def using assms by (intro int_div_pos_eq)
qed

lemma Day_of_midnight_west:
  assumes "- msPerDay \<le> z" and "z < 0"
  shows "Day (dd * msPerDay + z) = dd - 1"
proof -
  have e: "dd * msPerDay + z = msPerDay * (dd - 1) + (z + msPerDay)"
    by (simp add: right_diff_distrib)
  have r: "0 \<le> z + msPerDay" "z + msPerDay < msPerDay" using assms by simp_all
  show ?thesis unfolding Day_def by (rule int_div_pos_eq [OF e r])
qed

lemma MakeDay_in_year:
  assumes "1 \<le> m" "m \<le> 12" "1 \<le> d" "d \<le> DaysInMonth y m"
  shows "DayFromYear y \<le> MakeDay y (m - 1) d" "MakeDay y (m - 1) d < DayFromYear (y + 1)"
proof -
  have m: "(m - 1) div 12 = 0" "(m - 1) mod 12 = m - 1" using assms by simp_all
  have e: "MakeDay y (m - 1) d = DayFromYear y + daysBeforeMonth y (m - 1) + d - 1"
    unfolding MakeDay_def Let_def m by simp
  have "0 \<le> daysBeforeMonth y (m - 1)"
    unfolding daysBeforeMonth_def Let_def by simp
  with e assms show "DayFromYear y \<le> MakeDay y (m - 1) d" by simp
  have "m = 1 \<or> m = 2 \<or> m = 3 \<or> m = 4 \<or> m = 5 \<or> m = 6 \<or> m = 7 \<or> m = 8 \<or> m = 9
      \<or> m = 10 \<or> m = 11 \<or> m = 12"
    using assms by arith
  then have "daysBeforeMonth y (m - 1) + d - 1 < DaysInYear y"
    using assms(4) DaysInYear_cases [of y] unfolding daysBeforeMonth_def DaysInMonth_def Let_def
    by (elim disjE) simp_all
  with e show "MakeDay y (m - 1) d < DayFromYear (y + 1)"
    by (simp add: DayFromYear_Suc)
qed

lemma civil_of_MakeDay:
  assumes "1 \<le> m" "m \<le> 12" "1 \<le> d" "d \<le> DaysInMonth y m"
    and t: "Day t = MakeDay y (m - 1) d"
  shows "YearFromTime t = y" "MonthFromTime t = m - 1" "DateFromTime t = d"
proof -
  show y: "YearFromTime t = y"
    unfolding YearFromTime_def t using MakeDay_in_year [OF assms(1-4)] by (rule YearFromDay_unique)
  have mm: "(m - 1) div 12 = 0" "(m - 1) mod 12 = m - 1" using assms by simp_all
  have w: "DayWithinYear t = daysBeforeMonth y (m - 1) + d - 1"
    unfolding DayWithinYear_def y t MakeDay_def Let_def mm by simp
  have l: "InLeapYear t = (if DaysInYear y = 366 then 1 else 0)"
    by (simp add: InLeapYear_def y)
  have cases: "m = 1 \<or> m = 2 \<or> m = 3 \<or> m = 4 \<or> m = 5 \<or> m = 6 \<or> m = 7 \<or> m = 8 \<or> m = 9
      \<or> m = 10 \<or> m = 11 \<or> m = 12"
    using assms by arith
  show mo: "MonthFromTime t = m - 1"
    using cases assms(3,4) unfolding MonthFromTime_def w l daysBeforeMonth_def DaysInMonth_def Let_def
    by (elim disjE) (simp_all split: if_splits)
  show "DateFromTime t = d"
    using cases unfolding DateFromTime_def mo w l daysBeforeMonth_def Let_def
    by (elim disjE) simp_all
qed

section \<open>The grand total as a fold\<close>

lemma foldl_sumStep:
  "foldl sumStep a xs = foldl fadd a (map (\<lambda>it. orZero (amountNumber (amount it))) xs)"
  by (induction xs arbitrary: a) (simp_all add: sumStep_def)

section \<open>Examples of the platform functions\<close>

lemmas literal_defs = parseFloat_def unsignedLiteral_def exponentPart_def is_space_def
  is_digit_def digits_val_def digit_val_def

lemma fl_examples:
  "fl (25 / 2) = Num (25 / 2)" "fl (3 / 4) = Num (3 / 4)" "fl (1 / 4) = Num (1 / 4)"
  "fl (9 / 16) = Num (9 / 16)" "fl (7 / 16) = Num (7 / 16)" "fl (225 / 4) = Num (225 / 4)"
  "fl (175 / 4) = Num (175 / 4)"
  using fl_dyadic [of 25 1] fl_dyadic [of 3 2] fl_dyadic [of 1 2] fl_dyadic [of 9 4]
    fl_dyadic [of 7 4] fl_dyadic [of 225 2] fl_dyadic [of 175 2]
  by simp_all

lemma parseFloat_examples:
  "parseFloat ''abc'' = NaN" "parseFloat [] = NaN" "parseFloat ''-5'' = Num (- 5)"
  "parseFloat ''0'' = Num 0" "parseFloat ''12.5'' = Num (25 / 2)"
  "parseFloat ''12abc'' = Num 12" "parseFloat ''1,000'' = Num 1"
  "parseFloat '' 7'' = Num 7" "parseFloat ''Infinity'' = PosInf"
  "parseFloat ''-Infinity'' = NegInf" "parseFloat ''.5'' = Num (1 / 2)"
  "parseFloat ''1e3'' = Num 1000"
  using fl_dyadic [of 1 1] by (simp_all add: literal_defs fl_numeral fl_examples)

lemma zero_pad_numeral:
  "zero_pad (numeral n) k = zero_pad (pred_numeral n) (k div 10) @ [digit_char k]"
  by (subst numeral_eq_Suc) simp

lemma MakeDay_examples:
  "MakeDay 2024 2 1 = 19783" "MakeDay 2024 2 7 = 19789"
  "MakeDay (- 1) 0 1 = - 719893" "MakeDay 10000 0 1 = 2932897"
  by (simp_all add: MakeDay_def daysBeforeMonth_def DayFromYear_def DaysInYear_def)

lemma isoDateOnly_examples:
  "isoDateOnly ''2024-03-01'' = Some (2024, 3, 1)"
  "isoDateOnly ''-000001-01'' = Some (- 1, 1, 1)"
  "isoDateOnly ''+010000-01-01'' = Some (10000, 1, 1)"
  by (simp_all add: isoDateOnly_def isoYear_def is_digit_def digits_val_def digit_val_def)

lemma newDateString_examples:
  "newDateString e ''2024-03-01'' = Some 1709251200000"
  "newDateString e ''-000001-01'' = Some (- 62198755200000)"
  "newDateString e ''+010000-01-01'' = Some 253402300800000"
  by (simp_all add: newDateString_def isoDateOnly_examples DaysInMonth_def DaysInYear_def
      MakeDay_examples MakeDate_def msPerDay_def TimeClip_def)

lemma length_zero_pad: "length (zero_pad w k) = w"
  by (induction w arbitrary: k) simp_all

lemma length_isoYearString: "4 \<le> length (isoYearString y)"
  by (simp add: isoYearString_def length_zero_pad)

lemma take_10_toISOString:
  "take 10 (toISOString t)
     = take 10 (isoYearString (YearFromTime t) @ ''-'' @ zero_pad 2 (nat (MonthFromTime t + 1))
                @ ''-'' @ zero_pad 2 (nat (DateFromTime t)))"
proof -
  define p where "p = isoYearString (YearFromTime t) @ ''-''
    @ zero_pad 2 (nat (MonthFromTime t + 1)) @ ''-'' @ zero_pad 2 (nat (DateFromTime t))"
  have "10 \<le> length p"
    using length_isoYearString [of "YearFromTime t"] by (simp add: p_def length_zero_pad)
  moreover have "\<exists>q. toISOString t = p @ q"
    by (simp add: toISOString_def p_def)
  ultimately show ?thesis unfolding p_def [symmetric] by auto
qed

lemmas totals_defs = totalsByCategory_def totalsStep_def categoryLabel_def readOrZero_def
  objectPrototypeKeys_def row_def sumOfValues_def total_def sumStep_def assign_def
  arrayIndex_def indexBelow_def is_digit_def fl_numeral

section \<open>The legend\<close>


text \<open>Shares as the legend prints them.\<close>

lemma pct_10_of_15: "pct (Num 15) 10 = Digits ''66.7''"
proof -
  have 1: "fl (2 / 3) = Num (6004799503160661 / 9007199254740992)"
    using fl_nearest [of "- 1" "2 / 3" 6004799503160661] by (simp add: pow2_def)
  have 2: "fl (150119987579016525 / 2251799813685248) = Num (2345624805922133 / 35184372088832)"
    using fl_nearest [of 6 "150119987579016525 / 2251799813685248" 4691249611844266] by (simp add: pow2_def)
  have 3: "tenths (2345624805922133 / 35184372088832) = 667"
    unfolding tenths_def by (rule floor_unique; simp)
  have 4: "fixedText False 667 = ''66.7''"
    by (simp add: fixedText_def decimal.simps digit_char_def)
  show ?thesis
    by (simp add: pct_def 1 2 3 4)
qed

lemma pct_5_of_15: "pct (Num 15) 5 = Digits ''33.3''"
proof -
  have 1: "fl (1 / 3) = Num (6004799503160661 / 18014398509481984)"
    using fl_nearest [of "- 2" "1 / 3" 6004799503160661] by (simp add: pow2_def)
  have 2: "fl (150119987579016525 / 4503599627370496) = Num (2345624805922133 / 70368744177664)"
    using fl_nearest [of 5 "150119987579016525 / 4503599627370496" 4691249611844266] by (simp add: pow2_def)
  have 3: "tenths (2345624805922133 / 70368744177664) = 333"
    unfolding tenths_def by (rule floor_unique; simp)
  have 4: "fixedText False 333 = ''33.3''"
    by (simp add: fixedText_def decimal.simps digit_char_def)
  show ?thesis
    by (simp add: pct_def 1 2 3 4)
qed







section \<open>The Week window in days\<close>

text \<open>
  With the clock at or after 2000-01-07 (local time) and a zone within a day of UTC, the
  Week filter keeps a record iff its date parses and the local day of the parsed instant is
  not before the local day of now minus 6 (\<open>week_window_by_local_days\<close> above). A stored
  date \<^verbatim>\<open>YYYY-MM-DD\<close> is midnight UTC, so its local day is that calendar day at UTC and
  east of it, and the day before west of it.
\<close>

lemma isoDateOnly_nonempty: "isoDateOnly s = Some ymd \<Longrightarrow> s \<noteq> []"
  by (auto simp add: isoDateOnly_def isoYear_def)

lemma newDateString_iso:
  assumes "isoDateOnly s = Some (y, m, d)" "1 \<le> m" "m \<le> 12" "1 \<le> d" "d \<le> DaysInMonth y m"
  shows "newDateString e s = TimeClip (MakeDay y (m - 1) d * msPerDay)"
  using assms by (simp add: newDateString_def MakeDate_def)

lemma week_window_of_stored_date:
  assumes tz: "- msPerDay \<le> LocalTZA e" "LocalTZA e < msPerDay"
    and now_ok: "now \<le> 8640000000000000"
    and recent: "DayFromYear 2000 + 6 \<le> Day (LocalTime e now)"
    and stored: "date item = Some s" "isoDateOnly s = Some (y, m, d)"
    and legal: "1 \<le> m" "m \<le> 12" "1 \<le> d" "d \<le> DaysInMonth y m"
    and range: "\<bar>MakeDay y (m - 1) d * msPerDay\<bar> \<le> 8640000000000000"
  shows "inWindow e now FilterWeek item
     \<longleftrightarrow> Day (LocalTime e now) - 6 \<le> MakeDay y (m - 1) d - (if LocalTZA e < 0 then 1 else 0)"
proof -
  define dd where "dd = MakeDay y (m - 1) d"
  have p: "newDateString e s = Some (dd * msPerDay)"
    using range by (simp add: newDateString_iso [OF stored(2) legal] TimeClip_def dd_def)
  have z: "\<bar>LocalTZA e\<bar> \<le> msPerDay" using tz by simp
  have "Day (LocalTime e (dd * msPerDay)) = dd - (if LocalTZA e < 0 then 1 else 0)"
    using tz by (simp add: LocalTime_def Day_of_midnight_east Day_of_midnight_west)
  then show ?thesis
    using week_window_by_local_days [OF z now_ok recent stored(1) isoDateOnly_nonempty [OF stored(2)] p]
    by (simp add: dd_def)
qed

lemma week_window_needs_a_date:
  assumes "inWindow e now FilterWeek item"
  shows "\<exists>s t. date item = Some s \<and> s \<noteq> [] \<and> newDateString e s = Some t"
  using assms by (auto simp add: inWindow_def split: option.splits if_splits)


section \<open>Decimal digits\<close>

lemma digit_val_digit_char: "digit_val (digit_char k) = int (k mod 10)"
proof -
  have "k mod 10 < 10" by simp
  then have "k mod 10 = 0 \<or> k mod 10 = 1 \<or> k mod 10 = 2 \<or> k mod 10 = 3 \<or> k mod 10 = 4
      \<or> k mod 10 = 5 \<or> k mod 10 = 6 \<or> k mod 10 = 7 \<or> k mod 10 = 8 \<or> k mod 10 = 9"
    by arith
  then show ?thesis
    unfolding digit_val_def digit_char_def by (elim disjE) simp_all
qed

lemma digits_val_snoc: "digits_val (s @ [c]) = 10 * digits_val s + digit_val c"
  by (simp add: digits_val_def)

lemma digits_val_decimal: "digits_val (decimal k) = int k"
proof (induction k rule: decimal.induct)
  case (1 k)
  show ?case
  proof (cases "k < 10")
    case True
    then show ?thesis
      by (subst decimal.simps) (simp add: digits_val_def digit_val_digit_char)
  next
    case False
    have "k = 10 * (k div 10) + k mod 10" by simp
    then have "int k = int (10 * (k div 10) + k mod 10)" by (rule arg_cong)
    then have "int k = 10 * int (k div 10) + int (k mod 10)" by (simp only: of_nat_add of_nat_mult of_nat_numeral)
    with False 1 show ?thesis
      by (subst decimal.simps) (simp add: digits_val_snoc digit_val_digit_char)
  qed
qed

lemma digits_val_zero_pad: "digits_val (zero_pad w k) = int (k mod 10 ^ w)"
proof (induction w arbitrary: k)
  case 0
  show ?case by (simp add: digits_val_def)
next
  case (Suc w)
  have "k mod (10 * 10 ^ w) = 10 * (k div 10 mod 10 ^ w) + k mod 10"
    by (rule mod_mult2_eq)
  then show ?case
    by (simp add: digits_val_snoc Suc.IH digit_val_digit_char)
qed

lemma fixedText_denotes_tenths:
  assumes "0 \<le> n"
  shows "\<exists>ip fd. fixedText neg n = (if neg then ''-'' else []) @ ip @ ''.'' @ [fd]
     \<and> 10 * digits_val ip + digit_val fd = n"
proof -
  have "0 \<le> n div 10" using assms by (simp add: pos_imp_zdiv_nonneg_iff)
  moreover have "0 \<le> n mod 10" "n mod 10 < 10" by simp_all
  ultimately have "10 * digits_val (decimal (nat (n div 10))) + digit_val (digit_char (nat (n mod 10))) = n"
    by (simp add: digits_val_decimal digit_val_digit_char)
  then show ?thesis unfolding fixedText_def by blast
qed


section \<open>The date that \<^verbatim>\<open>addExpense\<close> stores\<close>

text \<open>
  An empty input gives no date; an input that matches the pattern is kept as it is; an
  input the parser rejects gives no date, and the record is stored all the same; an input
  that parses is stored as the first ten characters of its UTC ISO string, which have the
  form \<^verbatim>\<open>YYYY-MM-DD\<close> exactly when the UTC year is from 0 to 9999.
\<close>

lemma dateIso_empty: "dateIso e [] = None"
  by (simp add: dateIso_def)

lemma dateIso_pattern: "isoPattern dt \<Longrightarrow> dateIso e dt = Some dt"
  by (cases dt) (simp_all add: dateIso_def)

lemma dateIso_unparseable:
  "\<not> isoPattern dt \<Longrightarrow> newDateString e dt = None \<Longrightarrow> dateIso e dt = None"
  by (simp add: dateIso_def)

lemma dateIso_parsed:
  "dt \<noteq> [] \<Longrightarrow> \<not> isoPattern dt \<Longrightarrow> newDateString e dt = Some t
   \<Longrightarrow> dateIso e dt = Some (take 10 (toISOString t))"
  by (simp add: dateIso_def)

lemma is_digit_digit_char: "is_digit (digit_char k)"
proof -
  have "k mod 10 < length ''0123456789''" by simp
  then have "''0123456789'' ! (k mod 10) \<in> set ''0123456789''" by (rule nth_mem)
  then show ?thesis by (simp only: is_digit_def digit_char_def)
qed

lemma zero_pad_2: "zero_pad 2 k = [digit_char (k div 10), digit_char k]"
  by (simp add: zero_pad_numeral)

lemma zero_pad_4:
  "zero_pad 4 k = [digit_char (k div 10 div 10 div 10), digit_char (k div 10 div 10),
                   digit_char (k div 10), digit_char k]"
  by (simp add: zero_pad_numeral)

lemma iso_date_for_four_digit_year:
  assumes "0 \<le> YearFromTime t" "YearFromTime t \<le> 9999"
  shows "take 10 (toISOString t)
      = zero_pad 4 (nat (YearFromTime t)) @ ''-'' @ zero_pad 2 (nat (MonthFromTime t + 1))
          @ ''-'' @ zero_pad 2 (nat (DateFromTime t))"
    and "isoPattern (take 10 (toISOString t))"
proof -
  show 1: "take 10 (toISOString t)
      = zero_pad 4 (nat (YearFromTime t)) @ ''-'' @ zero_pad 2 (nat (MonthFromTime t + 1))
          @ ''-'' @ zero_pad 2 (nat (DateFromTime t))"
    unfolding take_10_toISOString using assms
    by (simp add: isoYearString_def length_zero_pad)
  show "isoPattern (take 10 (toISOString t))"
    unfolding 1 zero_pad_4 zero_pad_2 by (simp add: is_digit_digit_char)
qed

lemma iso_date_for_expanded_year:
  assumes "\<not> (0 \<le> YearFromTime t \<and> YearFromTime t \<le> 9999)"
  shows "\<not> isoPattern (take 10 (toISOString t))"
proof -
  obtain c r where "isoYearString (YearFromTime t) = c # r" "c = CHR ''-'' \<or> c = CHR ''+''"
    using assms by (auto simp add: isoYearString_def)
  moreover have "\<not> is_digit CHR ''-''" "\<not> is_digit CHR ''+''" by (simp_all add: is_digit_def)
  ultimately show ?thesis
    unfolding take_10_toISOString
    by (cases "take 10 ((c # r) @ ''-'' @ zero_pad 2 (nat (MonthFromTime t + 1)) @ ''-''
              @ zero_pad 2 (nat (DateFromTime t)))" rule: isoPattern.cases) auto
qed

lemma unparseable_date_is_stored_as_absent:
  assumes "parseFloat (amountText st) = Num a" "0 < a" "trim (categoryText st) \<noteq> []"
    and "editingId st = None"
    and "dateText st \<noteq> []" "\<not> isoPattern (dateText st)" "newDateString e (dateText st) = None"
  shows "fst (addExpense e st) = None"
    and "\<exists>r. table_rows (snd (addExpense e st)) = table_rows st @ [r] \<and> date r = None
          \<and> amount r = SqlNum (Num a) \<and> category r = Some (trim (categoryText st))"
  using assms
  by (simp_all add: addExpense_def Let_def dateIso_def sqlInsert_def loadExpenses_def)

section \<open>Totals of categories that name no inherited member\<close>

text \<open>
  When no category is the name of a member of \<^verbatim>\<open>Object.prototype\<close>, every total is a
  number: starting from 0, the amounts of the category are added in the order of the
  records, a running total that is NaN counting as 0.
\<close>

lemma map_of_replace:
  "map_of (map (\<lambda>en. if fst en = k then (k, v) else en) acc) c
     = (if c = k then (if k \<in> set (map fst acc) then Some v else None) else map_of acc c)"
  by (induction acc) (auto simp add: image_iff, force+)

lemma map_of_insert_other:
  "c \<noteq> k \<Longrightarrow> map_of (xs @ (k, v) # ys) c = map_of (xs @ ys) c"
  by (induction xs) auto

lemma map_of_insert_new:
  "k \<notin> set (map fst xs) \<Longrightarrow> map_of (xs @ (k, v) # ys) k = Some v"
  by (induction xs) auto

lemma map_of_assign: "map_of (assign acc k v) = (map_of acc)(k \<mapsto> v)"
proof (rule ext)
  fix c
  show "map_of (assign acc k v) c = ((map_of acc)(k \<mapsto> v)) c"
  proof (cases "k \<in> set (map fst acc)")
    case True
    then show ?thesis by (simp add: assign_def map_of_replace)
  next
    case False
    show ?thesis
    proof (cases "arrayIndex k")
      case None
      have "map_of (acc @ (k, v) # []) c = ((map_of acc)(k \<mapsto> v)) c"
        using False map_of_insert_new [of k acc v "[]"] map_of_insert_other [of c k acc v "[]"]
        by (cases "c = k") simp_all
      then show ?thesis using False None by (simp add: assign_def)
    next
      case (Some i)
      have "k \<notin> set (map fst (takeWhile (indexBelow i) acc))"
        using False by (auto dest: set_takeWhileD)
      then have "map_of (takeWhile (indexBelow i) acc @ (k, v) # dropWhile (indexBelow i) acc) c
          = ((map_of acc)(k \<mapsto> v)) c"
        using map_of_insert_new [of k "takeWhile (indexBelow i) acc" v "dropWhile (indexBelow i) acc"]
          map_of_insert_other [of c k "takeWhile (indexBelow i) acc" v "dropWhile (indexBelow i) acc"]
        by (cases "c = k") simp_all
      then show ?thesis using False Some by (simp add: assign_def)
    qed
  qed
qed

lemma set_assign_values: "snd ` set (assign acc k v) \<subseteq> insert v (snd ` set acc)"
proof -
  have "set (assign acc k v) \<subseteq> insert (k, v) (set acc)"
    by (auto simp add: assign_def split: option.splits dest: set_takeWhileD set_dropWhileD)
  then show ?thesis by force
qed

lemma filter_other_label:
  assumes "c \<notin> categoryLabel ` set xs"
  shows "filter (\<lambda>it. categoryLabel it = c) xs = []"
  using assms by (auto simp add: filter_empty_conv)

lemma falsy_is_zero: "(if truthy n then n else Num 0) = orZero n"
  by (cases n) simp_all

lemma readOrZero_numeric:
  assumes "Text \<notin> snd ` set acc" and "cat \<notin> set objectPrototypeKeys"
  shows "readOrZero acc cat = Number (orZero (storedNumber acc cat))"
proof (cases "map_of acc cat")
  case None
  with assms(2) show ?thesis by (simp add: readOrZero_def storedNumber_def)
next
  case (Some v)
  then have "v \<in> snd ` set acc" by (force dest: map_of_SomeD)
  with assms(1) obtain r where "v = Number r" by (cases v) auto
  with Some show ?thesis by (simp add: readOrZero_def storedNumber_def falsy_is_zero)
qed

lemma proto_not_label:
  assumes "cat \<notin> set objectPrototypeKeys"
  shows "cat \<noteq> ''__proto__''"
  using assms by (auto simp add: objectPrototypeKeys_def)

lemma totalsStep_numeric:
  assumes "Text \<notin> snd ` set acc" and "categoryLabel it \<notin> set objectPrototypeKeys"
  shows "totalsStep acc it
     = assign acc (categoryLabel it)
         (Number (fadd (orZero (storedNumber acc (categoryLabel it)))
                       (orZero (amountNumber (amount it)))))"
  using proto_not_label [OF assms(2)]
  by (simp add: totalsStep_def Let_def readOrZero_numeric [OF assms])

lemma totalsStep_keeps_numbers:
  assumes "Text \<notin> snd ` set acc" and "categoryLabel it \<notin> set objectPrototypeKeys"
  shows "Text \<notin> snd ` set (totalsStep acc it)"
  using set_assign_values [of acc "categoryLabel it"] assms
  unfolding totalsStep_numeric [OF assms] by fastforce

lemma storedNumber_assign:
  "storedNumber (assign acc k (Number r)) c = (if c = k then r else storedNumber acc c)"
  by (simp add: storedNumber_def map_of_assign)

lemma totals_fold_lookup:
  assumes "Text \<notin> snd ` set acc"
    and "\<forall>it \<in> set xs. categoryLabel it \<notin> set objectPrototypeKeys"
  shows "map_of (foldl totalsStep acc xs) c =
     (if c \<in> categoryLabel ` set xs
      then Some (Number (foldl (\<lambda>s n. fadd (orZero s) n) (storedNumber acc c)
                   (map (\<lambda>it. orZero (amountNumber (amount it)))
                        (filter (\<lambda>it. categoryLabel it = c) xs))))
      else map_of acc c)"
  using assms
proof (induction xs arbitrary: acc)
  case Nil
  show ?case by simp
next
  case (Cons it xs)
  have ok: "categoryLabel it \<notin> set objectPrototypeKeys" using Cons.prems(2) by simp
  note step = totalsStep_numeric [OF Cons.prems(1) ok]
  have num: "Text \<notin> snd ` set (totalsStep acc it)"
    by (rule totalsStep_keeps_numbers [OF Cons.prems(1) ok])
  have rest: "\<forall>it \<in> set xs. categoryLabel it \<notin> set objectPrototypeKeys"
    using Cons.prems(2) by simp
  show ?case
    unfolding foldl_Cons Cons.IH [OF num rest]
    by (auto simp add: step storedNumber_assign map_of_assign filter_other_label)
qed

lemma totals_of_ordinary_categories:
  assumes "\<forall>it \<in> set xs. categoryLabel it \<notin> set objectPrototypeKeys"
  shows "map_of (totalsByCategory xs) c =
     (if c \<in> categoryLabel ` set xs
      then Some (Number (foldl (\<lambda>s n. fadd (orZero s) n) (Num 0)
                   (map (\<lambda>it. orZero (amountNumber (amount it)))
                        (filter (\<lambda>it. categoryLabel it = c) xs))))
      else None)"
  using totals_fold_lookup [of "[]" xs c] assms
  by (simp add: totalsByCategory_def storedNumber_def)

lemma totals_of_no_records: "totalsByCategory [] = []"
  by (simp add: totalsByCategory_def)

section \<open>The shares of the legend\<close>






section \<open>The claims\<close>

subsection \<open>C1: the subset behind the per-category totals and the shares\<close>

lemma finalFiltered_all: "finalFiltered ''all'' xs = xs"
  by (simp add: finalFiltered_def categoryMatches_def)

text \<open>
  C1 states that the per-category totals and the percentage shares are computed over the
  final visible subset, the records that pass the time window and the category filter, as
  the displayed grand total is. The code computes them from \<^verbatim>\<open>filteredExpenses\<close>, before
  the category filter (the comment on line 503: "totals per category for the currently
  time-filtered set"; the rows of the totals are what the user taps to choose a category).
  As amended: the totals and the shares are computed over the time-filtered subset and do
  not depend on the selected category; the grand total is computed over the final visible
  subset; the two subsets are the same when the category filter is \<^verbatim>\<open>'all'\<close>.
\<close>

theorem totals_and_shares_over_time_filtered_subset:
  "shownTotals e now (st\<lparr>categoryFilter := cf\<rparr>)
      = totalsByCategory (filteredExpenses e now (timeFilter st) (expenses st))
   \<and> legend (shownTotals e now (st\<lparr>categoryFilter := cf\<rparr>)) = legend (shownTotals e now st)
   \<and> visibleTotal e now st
      = total (finalFiltered (categoryFilter st)
                   (filteredExpenses e now (timeFilter st) (expenses st)))
   \<and> shownFinal e now (st\<lparr>categoryFilter := ''all''\<rparr>) = shownFiltered e now st"
  by (simp add: shownTotals_def shownFiltered_def visibleTotal_def shownFinal_def finalFiltered_all)

text \<open>
  The claim as stated fails with a record of 10 in Food, one of 5 in Rent and the category
  filter Food: the totals still list Rent and the shares are 66.7 and 33.3, while the
  visible subset holds the Food record alone and the grand total is 10.
\<close>

theorem totals_not_over_visible_subset:
  "shownTotals (engine 0) noonMarch7 twoCategories
       = [(''Food'', Number (Num 10)), (''Rent'', Number (Num 5))]
   \<and> shownFinal (engine 0) noonMarch7 twoCategories = [row 2 10 ''Food'' None]
   \<and> totalsByCategory (shownFinal (engine 0) noonMarch7 twoCategories)
       = [(''Food'', Number (Num 10))]
   \<and> shownTotals (engine 0) noonMarch7 twoCategories
       \<noteq> totalsByCategory (shownFinal (engine 0) noonMarch7 twoCategories)
   \<and> legend (shownTotals (engine 0) noonMarch7 twoCategories)
       = Some [(''Food'', Digits ''66.7''), (''Rent'', Digits ''33.3'')]
   \<and> visibleTotal (engine 0) noonMarch7 twoCategories = Num 10"
proof -
  have f: "shownFiltered (engine 0) noonMarch7 twoCategories
      = [row 2 10 ''Food'' None, row 1 5 ''Rent'' None]"
    by (simp add: shownFiltered_def filteredExpenses_def inWindow_def twoCategories_def
        emptyScreen_def)
  have c: "categoryFilter twoCategories = ''Food''"
    by (simp add: twoCategories_def)
  have g: "shownFinal (engine 0) noonMarch7 twoCategories = [row 2 10 ''Food'' None]"
    unfolding shownFinal_def f c by (simp add: finalFiltered_def categoryMatches_def row_def)
  have t: "shownTotals (engine 0) noonMarch7 twoCategories
      = [(''Food'', Number (Num 10)), (''Rent'', Number (Num 5))]"
    by (simp add: shownTotals_def f totals_defs)
  have l: "legendPercents [(''Food'', 10), (''Rent'', 5)]
      = [(''Food'', Digits ''66.7''), (''Rent'', Digits ''33.3'')]"
    by (simp add: legendPercents_def legendTotal_def pieEntries_def fl_numeral pct_10_of_15
        pct_5_of_15)
  show ?thesis
    by (simp add: t g visibleTotal_def legend_def l) (simp add: totals_defs)
qed

subsection \<open>C2: the Week window\<close>

text \<open>
  C2 states that under the Week window a record is included iff its date is present and
  parseable and its calendar date is not before the calendar date of now minus 6 days. A
  stored date is a string \<^verbatim>\<open>YYYY-MM-DD\<close>, which \<^verbatim>\<open>new Date\<close> reads as midnight UTC, while
  \<^verbatim>\<open>getFullYear\<close>, \<^verbatim>\<open>getMonth\<close> and \<^verbatim>\<open>getDate\<close> read the date in local time. West of UTC
  that is the evening before, so the record dated six days ago is left out
  (\<open>week_window_of_stored_date\<close>), against the comment on line 490, "include today and
  last 6 days = 7-day window". At noon of 2024-03-07, five hours west of UTC, the record
  dated 2024-03-01 is excluded; the same record at the same instant is included at UTC.
\<close>

theorem week_window_is_a_day_short_west_of_UTC:
  "getFullYear (engine fiveHoursWest) noonMarch7 = 2024
   \<and> getMonth (engine fiveHoursWest) noonMarch7 = 2
   \<and> getDate (engine fiveHoursWest) noonMarch7 = 7
   \<and> inWindow (engine fiveHoursWest) noonMarch7 FilterWeek
        (row 1 10 ''Food'' (Some ''2024-03-01'')) = False
   \<and> inWindow (engine 0) noonMarch7 FilterWeek (row 1 10 ''Food'' (Some ''2024-03-01'')) = True"
proof -
  let ?w = "engine fiveHoursWest" and ?u = "engine 0"
  let ?r = "row 1 10 ''Food'' (Some ''2024-03-01'')"
  have dw: "Day (LocalTime ?w noonMarch7) = 19789"
    by (simp add: Day_def LocalTime_def engine_def fiveHoursWest_def noonMarch7_def msPerDay_def)
  have du: "Day (LocalTime ?u noonMarch7) = 19789"
    by (simp add: Day_def LocalTime_def engine_def noonMarch7_def msPerDay_def)
  have "DaysInMonth 2024 3 = 31" by (simp add: DaysInMonth_def)
  then have civil: "YearFromTime (LocalTime ?w noonMarch7) = 2024"
    "MonthFromTime (LocalTime ?w noonMarch7) = 3 - 1"
    "DateFromTime (LocalTime ?w noonMarch7) = 7"
    using civil_of_MakeDay [of 3 7 2024 "LocalTime ?w noonMarch7"]
    by (simp_all add: dw MakeDay_examples)
  have rw: "Day (LocalTime ?w 1709251200000) = 19782"
    by (simp add: Day_def LocalTime_def engine_def fiveHoursWest_def msPerDay_def)
  have ru: "Day (LocalTime ?u 1709251200000) = 19783"
    by (simp add: Day_def LocalTime_def engine_def msPerDay_def)
  have d: "date ?r = Some ''2024-03-01''" "''2024-03-01'' \<noteq> []"
    by (simp_all add: row_def)
  have west: "inWindow ?w noonMarch7 FilterWeek ?r \<longleftrightarrow> 19789 - 6 \<le> (19782 :: int)"
    using week_window_by_local_days [of ?w noonMarch7 ?r, OF _ _ _ d newDateString_examples(1)]
    by (simp add: dw rw DayFromYear_2000) (simp add: engine_def fiveHoursWest_def msPerDay_def noonMarch7_def)
  have utc: "inWindow ?u noonMarch7 FilterWeek ?r \<longleftrightarrow> 19789 - 6 \<le> (19783 :: int)"
    using week_window_by_local_days [of ?u noonMarch7 ?r, OF _ _ _ d newDateString_examples(1)]
    by (simp add: du ru DayFromYear_2000) (simp add: engine_def msPerDay_def noonMarch7_def)
  show ?thesis
    using west utc civil by (simp add: getFullYear_def getMonth_def getDate_def)
qed

subsection \<open>C3: the date that is stored\<close>

text \<open>
  C3 states that a date that does not match the pattern but parses is reformatted to
  \<^verbatim>\<open>YYYY-MM-DD\<close>. The code keeps the first ten characters of \<^verbatim>\<open>toISOString()\<close>, which
  for a year outside 0 to 9999 are a sign, six digits of the year and the month: the input
  \<^verbatim>\<open>-000001-01\<close> (year -1, January) is stored as \<^verbatim>\<open>-000001-01\<close> and the input
  \<^verbatim>\<open>+010000-01-01\<close> as \<^verbatim>\<open>+010000-01\<close>, neither of the form \<^verbatim>\<open>YYYY-MM-DD\<close>
  that the comment on line 394 names. The rest of the claim holds: \<open>dateIso_empty\<close>,
  \<open>dateIso_pattern\<close>, \<open>iso_date_for_four_digit_year\<close> and
  \<open>unparseable_date_is_stored_as_absent\<close>.
\<close>

theorem stored_date_not_iso_for_years_outside_0_9999:
  "dateIso e ''-000001-01'' = Some ''-000001-01''
   \<and> dateIso e ''+010000-01-01'' = Some ''+010000-01''
   \<and> \<not> isoPattern ''-000001-01'' \<and> \<not> isoPattern ''+010000-01''"
proof -
  have a: "YearFromTime (- 62198755200000) = - 1" "MonthFromTime (- 62198755200000) = 1 - 1"
    "DateFromTime (- 62198755200000) = 1"
    using civil_of_MakeDay [of 1 1 "- 1" "- 62198755200000"]
    by (simp_all add: DaysInMonth_def Day_def msPerDay_def MakeDay_examples)
  have b: "YearFromTime 253402300800000 = 10000" "MonthFromTime 253402300800000 = 1 - 1"
    "DateFromTime 253402300800000 = 1"
    using civil_of_MakeDay [of 1 1 10000 253402300800000]
    by (simp_all add: DaysInMonth_def Day_def msPerDay_def MakeDay_examples)
  have 1: "take 10 (toISOString (- 62198755200000)) = ''-000001-01''"
    unfolding take_10_toISOString a
    by (simp add: isoYearString_def zero_pad_numeral digit_char_def)
  have 2: "take 10 (toISOString 253402300800000) = ''+010000-01''"
    unfolding take_10_toISOString b
    by (simp add: isoYearString_def zero_pad_numeral digit_char_def)
  have 3: "\<not> isoPattern ''-000001-01''" "\<not> isoPattern ''+010000-01''" "\<not> isoPattern ''+010000-01-01''"
    by (simp_all add: is_digit_def)
  show ?thesis
    using 3 by (simp add: dateIso_def newDateString_examples 1 2)
qed

subsection \<open>C4: which amounts are rejected\<close>

text \<open>
  When \<^verbatim>\<open>parseFloat\<close> yields NaN, zero or a negative number, \<^verbatim>\<open>addExpense\<close> takes the
  first early return and leaves the table and every other part of the state as they were.
  That is the case of a text without a numeric prefix and of a text whose numeric prefix is
  zero or negative.
\<close>

lemma guard_rejects_without_storage:
  "isNaN (parseFloat (amountText st)) \<or> le_zero (parseFloat (amountText st))
   \<Longrightarrow> addExpense e st = (Some InvalidAmount, st)"
  by (simp add: addExpense_def)

lemma rejected_amounts:
  "addExpense e (st\<lparr>amountText := ''abc''\<rparr>) = (Some InvalidAmount, st\<lparr>amountText := ''abc''\<rparr>)"
  "addExpense e (st\<lparr>amountText := []\<rparr>) = (Some InvalidAmount, st\<lparr>amountText := []\<rparr>)"
  "addExpense e (st\<lparr>amountText := ''0''\<rparr>) = (Some InvalidAmount, st\<lparr>amountText := ''0''\<rparr>)"
  "addExpense e (st\<lparr>amountText := ''-5''\<rparr>) = (Some InvalidAmount, st\<lparr>amountText := ''-5''\<rparr>)"
  "addExpense e (st\<lparr>amountText := ''-Infinity''\<rparr>)
     = (Some InvalidAmount, st\<lparr>amountText := ''-Infinity''\<rparr>)"
  by (simp_all add: addExpense_def parseFloat_examples)

text \<open>
  C4 states that every amount string that is non-numeric is rejected with InvalidAmount and
  nothing is stored. \<^verbatim>\<open>parseFloat\<close> reads the longest numeric prefix and ignores the rest,
  and the guard only looks at its result: the text \<^verbatim>\<open>1,000\<close> is accepted and a record of
  amount 1 is inserted, and \<^verbatim>\<open>12abc\<close> is stored as 12, against the comment on line 382,
  "ignore invalid or non-positive amounts". (The date field is checked whole, by an
  anchored pattern.)
\<close>

theorem amount_with_numeric_prefix_is_stored:
  "fst (addExpense (engine 0) (emptyScreen\<lparr>amountText := ''1,000'', categoryText := ''Food''\<rparr>))
      = None
   \<and> table_rows (snd (addExpense (engine 0)
         (emptyScreen\<lparr>amountText := ''1,000'', categoryText := ''Food''\<rparr>)))
      = [row 1 1 ''Food'' None]
   \<and> fst (addExpense (engine 0) (emptyScreen\<lparr>amountText := ''12abc'', categoryText := ''Food''\<rparr>))
      = None
   \<and> table_rows (snd (addExpense (engine 0)
         (emptyScreen\<lparr>amountText := ''12abc'', categoryText := ''Food''\<rparr>)))
      = [row 1 12 ''Food'' None]"
  by (simp add: addExpense_def engine_def parseFloat_examples emptyScreen_def trim_def
      is_space_def dateIso_def sqlInsert_def loadExpenses_def row_def Let_def)

subsection \<open>C5: the percentage shares\<close>





subsection \<open>C6: the per-category totals\<close>

text \<open>
  C6 states that for every record list \<^verbatim>\<open>totalsByCategory\<close> maps each category to the sum
  of its amounts. For a category that is the name of a member of \<^verbatim>\<open>Object.prototype\<close>
  the fold reads the inherited member instead of a missing entry, and the total becomes a
  string: one record of 10 in the category \<^verbatim>\<open>constructor\<close> yields a text, not 10. The
  example of the specification, 10 and 5 in Food and 3 in Rent, yields Food 15 and Rent 3,
  and every list whose categories name no such member yields the sums of the amounts
  (\<open>totals_of_ordinary_categories\<close>).
\<close>

theorem totals_of_inherited_key_are_text:
  "totalsByCategory [row 1 10 ''constructor'' None] = [(''constructor'', Text)]
   \<and> totalsByCategory specRecords = [(''Food'', Number (Num 15)), (''Rent'', Number (Num 3))]"
  by (simp add: totals_defs specRecords_def)

subsection \<open>C7: the grand total\<close>

text \<open>
  C7 states that \<^verbatim>\<open>total\<close> is the sum of the amounts, with 0 for each amount that is not
  numeric or is missing. The code adds \<^verbatim>\<open>parseFloat(it.amount)\<close> unless that is NaN, and
  \<^verbatim>\<open>parseFloat\<close> reads the longest numeric prefix of a text: the amount \<^verbatim>\<open>'12abc'\<close>
  counts 12, not 0. As amended: \<^verbatim>\<open>total\<close> adds, from left to right in double-precision
  arithmetic and starting from 0, a contribution for each record: a stored number counts
  itself, a stored text counts the value of its longest numeric prefix and 0 if it has
  none, a missing amount counts 0; it is defined on every list, and it is 0 on the empty
  list.
\<close>

theorem total_adds_contributions_left_to_right:
  "total xs
     = foldl fadd (Num 0)
         (map (\<lambda>it. case amount it of
                       SqlNum n \<Rightarrow> (if n = NaN then Num 0 else n)
                     | SqlText s \<Rightarrow> (if parseFloat s = NaN then Num 0 else parseFloat s)
                     | SqlNull \<Rightarrow> Num 0) xs)
   \<and> total [] = Num 0"
proof -
  have "orZero (amountNumber a)
      = (case a of SqlNum n \<Rightarrow> (if n = NaN then Num 0 else n)
                 | SqlText s \<Rightarrow> (if parseFloat s = NaN then Num 0 else parseFloat s)
                 | SqlNull \<Rightarrow> Num 0)" for a
    by (cases a; cases "amountNumber a") auto
  then show ?thesis by (simp add: total_def foldl_sumStep)
qed

text \<open>
  The claim as stated fails for a record whose amount is the text \<^verbatim>\<open>12abc\<close>: it counts
  12. (A text that is a number counts that number, a text without a numeric prefix and a
  missing amount count 0, and the sum of the doubles nearest to 0.1 and 0.2 is the double
  0.30000000000000004.)
\<close>

theorem text_amount_with_numeric_prefix_counts:
  "total [\<lparr>id_col = 1, amount = SqlText ''12abc'', category = Some ''Food'', note_col = None,
            date = None\<rparr>] = Num 12
   \<and> total [row 2 10 ''Food'' None,
            \<lparr>id_col = 1, amount = SqlText ''12abc'', category = Some ''Food'', note_col = None,
             date = None\<rparr>] = Num 22
   \<and> total [\<lparr>id_col = 1, amount = SqlText ''12.5'', category = Some ''Food'', note_col = None,
             date = None\<rparr>] = Num (25 / 2)
   \<and> total [row 3 10 ''Food'' None,
            \<lparr>id_col = 2, amount = SqlText ''abc'', category = Some ''Food'', note_col = None,
             date = None\<rparr>,
            \<lparr>id_col = 1, amount = SqlNull, category = Some ''Food'', note_col = None,
             date = None\<rparr>] = Num 10
   \<and> total [row 2 (3602879701896397 / 36028797018963968) ''Food'' None,
            row 1 (3602879701896397 / 18014398509481984) ''Food'' None]
       = Num (1351079888211149 / 4503599627370496)"
proof -
  have a: "fl (3602879701896397 / 36028797018963968) = Num (3602879701896397 / 36028797018963968)"
    using fl_dyadic [of 3602879701896397 55] by simp
  have b: "fl (10808639105689191 / 36028797018963968) = Num (1351079888211149 / 4503599627370496)"
    using fl_tie [of "- 2" "10808639105689191 / 36028797018963968" 5404319552844595]
    by (simp add: pow2_def)
  show ?thesis
    by (simp add: total_def sumStep_def row_def parseFloat_examples fl_numeral fl_examples a b)
qed

subsection \<open>C8: the two filters commute\<close>

text \<open>
  C8: the Week filter followed by the category filter keeps the same records, in the same
  order, as the category filter followed by the Week filter.
\<close>

theorem week_and_category_filters_commute:
  "finalFiltered cf (filteredExpenses e now FilterWeek xs)
     = filteredExpenses e now FilterWeek (finalFiltered cf xs)"
  unfolding finalFiltered_def filteredExpenses_def
  by (induction xs) simp_all

subsection \<open>C9: the totals add up to the grand total\<close>


subsection \<open>C10: the pipeline only selects\<close>

text \<open>
  C10: the output of the two filters is a subsequence of the input: the records kept are
  records of the input, unchanged, in the order of the input and no more often than
  there. This holds for the functions and for what the screen shows of its state.
\<close>

theorem pipeline_output_is_subsequence:
  "subseq (finalFiltered cf (filteredExpenses e now flt xs)) xs
   \<and> subseq (shownFinal e now st) (expenses st)"
proof -
  have "subseq (filter P (filter Q ys)) ys" for P Q and ys :: "expense list"
    using subseq_order.order_trans [OF subseq_filter_left subseq_filter_left] .
  then show ?thesis
    by (simp add: finalFiltered_def filteredExpenses_def shownFinal_def shownFiltered_def)
qed

end
